theory Spec2Isabelle
  imports
    Main
    "HOL-Library.Char_ord"
    "HOL-Library.List_Lexorder"
    "HOL-Library.Product_Lexorder"
begin

section \<open>Data model\<close>

text \<open>
  Gene symbols and source labels are Python \<open>str\<close> values; they are modelled as
  \<open>string\<close>, ordered lexicographically by character code as Python's \<open>sorted\<close> and
  pandas' \<open>sort_values\<close> order them.

  A Python \<open>set\<close> is modelled as a list without repetitions in some iteration order;
  \<open>set.add\<close> is \<open>set_add\<close> and \<open>set.update\<close> is \<open>set_update\<close>.  Nothing below depends
  on where a new element is placed.
\<close>

definition set_add :: "'a \<Rightarrow> 'a list \<Rightarrow> 'a list" where
  "set_add x xs = (if x \<in> set xs then xs else xs @ [x])"

definition set_update :: "'a list \<Rightarrow> 'a list \<Rightarrow> 'a list" where
  "set_update acc xs = fold set_add xs acc"

text \<open>\<open>sep.join(xs)\<close> of Python.\<close>

fun join :: "string \<Rightarrow> string list \<Rightarrow> string" where
  "join sep [] = []"
| "join sep [x] = x"
| "join sep (x # y # ys) = x @ sep @ join sep (y # ys)"

datatype py_error = KeyError

datatype category = Ambiguous | Pro_apoptotic | Anti_apoptotic | Unspecified | Unknown

text \<open>The value of the \<open>defaultdict\<close> \<open>gene_evidence\<close> in \<open>03_gene_consolidation.py\<close>.\<close>

record evidence =
  pro_evidence :: "string list"
  anti_evidence :: "string list"
  general_evidence :: "string list"
  mouse_symbols :: "string list"

text \<open>One row of the consolidated table; the type of the category column is a
  parameter because the source breakdown later replaces it by a pandas categorical.\<close>

record 'c gene_row =
  human_symbol :: string
  mouse_symbol :: string
  category :: 'c
  sources :: string
  evidence_score :: int

text \<open>The argument \<open>sources\<close> of \<open>consolidate_genes\<close>: one gene set per source name,
  each in the order in which the Python set happens to be iterated.\<close>

record source_sets =
  GO_Pro_Human :: "string list"
  GO_Anti_Human :: "string list"
  GO_Pro_Mouse :: "string list"
  GO_Anti_Mouse :: "string list"
  KEGG :: "string list"
  Reactome :: "string list"
  Hallmark :: "string list"

text \<open>The dictionary returned by \<open>load_orthology_mapping\<close>.\<close>

record orthology =
  h2m :: "string \<rightharpoonup> string list"
  m2h :: "string \<rightharpoonup> string"

section \<open>Step 3: \<open>load_orthology_mapping\<close>\<close>

text \<open>A row of \<open>orthology_mapping.csv\<close> is the pair \<open>(human_symbol, mouse_symbol)\<close>.
  The loop body of \<open>load_orthology_mapping\<close>:\<close>

definition load_row :: "orthology \<Rightarrow> string \<times> string \<Rightarrow> orthology" where
  "load_row orth row =
     (let human = fst row; mouse = snd row;
          h2m1 = (if h2m orth human = None then (h2m orth)(human \<mapsto> []) else h2m orth);
          h2m2 = h2m1(human \<mapsto> (case h2m1 human of Some ms \<Rightarrow> ms @ [mouse] | None \<Rightarrow> [mouse]))
      in \<lparr>h2m = h2m2, m2h = (m2h orth)(mouse \<mapsto> human)\<rparr>)"

definition load_orthology_mapping :: "(string \<times> string) list \<Rightarrow> orthology" where
  "load_orthology_mapping df = foldl load_row \<lparr>h2m = Map.empty, m2h = Map.empty\<rparr> df"

section \<open>Step 3: \<open>consolidate_genes\<close>\<close>

type_synonym gene_evidence = "(string \<times> evidence) list"

definition default_evidence :: evidence where
  "default_evidence =
     \<lparr>pro_evidence = [], anti_evidence = [], general_evidence = [], mouse_symbols = []\<rparr>"

text \<open>\<open>gene_evidence[k]\<close> followed by a mutation \<open>f\<close> of the entry: the \<open>defaultdict\<close>
  creates the default entry at the end of the dictionary when the key is new.\<close>

fun dd_update :: "(evidence \<Rightarrow> evidence) \<Rightarrow> string \<Rightarrow> gene_evidence \<Rightarrow> gene_evidence" where
  "dd_update f k [] = [(k, f default_evidence)]"
| "dd_update f k ((k', v) # rest) =
     (if k = k' then (k', f v) # rest else (k', v) # dd_update f k rest)"

definition add_pro :: "string \<Rightarrow> evidence \<Rightarrow> evidence" where
  "add_pro s ev = ev\<lparr>pro_evidence := set_add s (pro_evidence ev)\<rparr>"

definition add_anti :: "string \<Rightarrow> evidence \<Rightarrow> evidence" where
  "add_anti s ev = ev\<lparr>anti_evidence := set_add s (anti_evidence ev)\<rparr>"

definition add_general :: "string \<Rightarrow> evidence \<Rightarrow> evidence" where
  "add_general s ev = ev\<lparr>general_evidence := set_add s (general_evidence ev)\<rparr>"

definition add_mouse :: "string \<Rightarrow> evidence \<Rightarrow> evidence" where
  "add_mouse s ev = ev\<lparr>mouse_symbols := set_add s (mouse_symbols ev)\<rparr>"

text \<open>The body of the loops over human gene sets (lines 129--133, 138--142, 176--180):
  file the source label, then add every mouse ortholog of the gene.\<close>

definition human_step ::
  "(string \<Rightarrow> evidence \<Rightarrow> evidence) \<Rightarrow> string \<Rightarrow> (string \<rightharpoonup> string list) \<Rightarrow>
   string \<Rightarrow> gene_evidence \<Rightarrow> gene_evidence" where
  "human_step add source_name h2m' gene ge =
     (let ge1 = dd_update (add source_name) gene ge
      in case h2m' gene of
           None \<Rightarrow> ge1
         | Some ms \<Rightarrow> fold (\<lambda>mouse. dd_update (add_mouse mouse) gene) ms ge1)"

text \<open>The body of the loops over mouse gene sets (lines 149--159, 165--170).\<close>

definition mouse_step ::
  "(string \<Rightarrow> evidence \<Rightarrow> evidence) \<Rightarrow> string \<Rightarrow> (string \<rightharpoonup> string) \<Rightarrow>
   string \<Rightarrow> gene_evidence \<Rightarrow> gene_evidence" where
  "mouse_step add source_name m2h' mouse_gene ge =
     (case m2h' mouse_gene of
        Some human_gene \<Rightarrow>
          dd_update (add_mouse mouse_gene) human_gene
            (dd_update (add source_name) human_gene ge)
      | None \<Rightarrow> ge)"

text \<open>Lines 116--181: the evidence tracker after all five loops.\<close>

definition aggregate :: "orthology \<Rightarrow> source_sets \<Rightarrow> gene_evidence" where
  "aggregate orth srcs =
     (let ge1 = fold (human_step add_pro ''GO_Pro_Human'' (h2m orth)) (GO_Pro_Human srcs) [];
          ge2 = fold (human_step add_anti ''GO_Anti_Human'' (h2m orth)) (GO_Anti_Human srcs) ge1;
          ge3 = fold (mouse_step add_pro ''GO_Pro_Mouse'' (m2h orth)) (GO_Pro_Mouse srcs) ge2;
          ge4 = fold (mouse_step add_anti ''GO_Anti_Mouse'' (m2h orth)) (GO_Anti_Mouse srcs) ge3
      in fold (\<lambda>(source_name, genes). fold (human_step add_general source_name (h2m orth)) genes)
           [(''KEGG'', KEGG srcs), (''Reactome'', Reactome srcs), (''Hallmark'', Hallmark srcs)]
           ge4)"

text \<open>Lines 194--209: the category of one evidence profile.\<close>

definition categorize :: "evidence \<Rightarrow> category" where
  "categorize ev =
     (let has_pro = length (pro_evidence ev) > 0;
          has_anti = length (anti_evidence ev) > 0;
          has_general = length (general_evidence ev) > 0
      in if has_pro \<and> has_anti then Ambiguous
         else if has_pro then Pro_apoptotic
         else if has_anti then Anti_apoptotic
         else if has_general then Unspecified
         else Unknown)"

text \<open>Lines 211--215: the set of all sources of one profile.\<close>

definition all_sources :: "evidence \<Rightarrow> string list" where
  "all_sources ev =
     set_update (set_update (set_update [] (pro_evidence ev)) (anti_evidence ev))
       (general_evidence ev)"

text \<open>Lines 194--233: the row appended for one item of \<open>gene_evidence\<close>.\<close>

definition consolidate_entry :: "string \<times> evidence \<Rightarrow> category gene_row" where
  "consolidate_entry item =
     (let ev = snd item in
      \<lparr>human_symbol = fst item,
       mouse_symbol = join '','' (sort (mouse_symbols ev)),
       category = categorize ev,
       sources = join '','' (sort (all_sources ev)),
       evidence_score = int (length (all_sources ev))\<rparr>)"

text \<open>The sort key of line 237: \<open>evidence_score\<close> descending, then \<open>human_symbol\<close>
  ascending, compared as the strings they are.  The symbols are the keys of a
  dictionary, hence pairwise different, so the sorted table is the same for every
  sorting algorithm.\<close>

definition sort_columns :: "'c gene_row \<Rightarrow> int \<times> string" where
  "sort_columns e = (- evidence_score e, human_symbol e)"

text \<open>\<open>consolidate_genes\<close>.  A data frame built from an empty list of rows has no
  columns, and \<open>sort_values\<close> on the missing column raises \<open>KeyError\<close>.\<close>

definition consolidate_genes :: "orthology \<Rightarrow> source_sets \<Rightarrow> py_error + category gene_row list" where
  "consolidate_genes orth srcs =
     (let consolidated_data = map consolidate_entry (aggregate orth srcs)
      in if consolidated_data = [] then Inl KeyError
         else Inr (sort_key sort_columns consolidated_data))"

section \<open>Step 2: the final mapping of \<open>build_comprehensive_mapping\<close>\<close>

text \<open>\<open>str.upper\<close> on the ASCII letters (characters are bytes here).\<close>

definition upper_char :: "char \<Rightarrow> char" where
  "upper_char c =
     (if CHR ''a'' \<le> c \<and> c \<le> CHR ''z'' then char_of (of_char c - (32::nat)) else c)"

definition upper :: "string \<Rightarrow> string" where
  "upper s = map upper_char s"

datatype direction = human_to_mouse | mouse_to_human

text \<open>A record of \<open>mapping_records\<close>.  Its columns \<open>human_symbol\<close> and \<open>mouse_symbol\<close>
  are written \<open>pair_human_symbol\<close> and \<open>pair_mouse_symbol\<close>, the unprefixed names
  being the columns of the consolidated table.\<close>

record mapping_record =
  pair_human_symbol :: string
  pair_mouse_symbol :: string
  human_entrez :: "int option"
  mouse_entrez :: "int option"
  mapping_source :: direction

text \<open>The subset of columns on which duplicates are dropped and the table is sorted.\<close>

definition pair_key :: "mapping_record \<Rightarrow> string \<times> string" where
  "pair_key r = (pair_human_symbol r, pair_mouse_symbol r)"

text \<open>Lines 239--249.  The dictionaries of phases 1--3 come from the external service:
  \<open>human_to_mouse_ids\<close> in insertion order, \<open>mouse_id_to_symbol\<close> as a lookup.
  \<open>if mouse_sym:\<close> rejects a missing and an empty symbol.\<close>

definition human_to_mouse_records ::
  "(string \<times> int list) list \<Rightarrow> (int \<rightharpoonup> string) \<Rightarrow> mapping_record list" where
  "human_to_mouse_records human_to_mouse_ids mouse_id_to_symbol =
     concat (map (\<lambda>(human_sym, mouse_ids).
       concat (map (\<lambda>mouse_id.
         case mouse_id_to_symbol mouse_id of
           None \<Rightarrow> []
         | Some mouse_sym \<Rightarrow>
             if mouse_sym \<noteq> [] then
               [\<lparr>pair_human_symbol = upper human_sym, pair_mouse_symbol = mouse_sym,
                 human_entrez = None, mouse_entrez = Some mouse_id,
                 mapping_source = human_to_mouse\<rparr>]
             else []) mouse_ids)) human_to_mouse_ids)"

text \<open>Lines 252--262.\<close>

definition mouse_to_human_records ::
  "(string \<times> int list) list \<Rightarrow> (int \<rightharpoonup> string) \<Rightarrow> mapping_record list" where
  "mouse_to_human_records mouse_to_human_ids human_id_to_symbol =
     concat (map (\<lambda>(mouse_sym, human_ids).
       concat (map (\<lambda>human_id.
         case human_id_to_symbol human_id of
           None \<Rightarrow> []
         | Some human_sym \<Rightarrow>
             if human_sym \<noteq> [] then
               [\<lparr>pair_human_symbol = upper human_sym, pair_mouse_symbol = mouse_sym,
                 human_entrez = Some human_id, mouse_entrez = None,
                 mapping_source = mouse_to_human\<rparr>]
             else []) human_ids)) mouse_to_human_ids)"

text \<open>\<open>DataFrame.drop_duplicates(subset, keep="first")\<close>: a row is dropped when the
  value of its subset columns has been seen in an earlier row.\<close>

fun drop_seen :: "('a \<Rightarrow> 'k) \<Rightarrow> 'k list \<Rightarrow> 'a list \<Rightarrow> 'a list" where
  "drop_seen key seen [] = []"
| "drop_seen key seen (r # rs) =
     (if key r \<in> set seen then drop_seen key seen rs
      else r # drop_seen key (key r # seen) rs)"

definition drop_duplicates :: "('a \<Rightarrow> 'k) \<Rightarrow> 'a list \<Rightarrow> 'a list" where
  "drop_duplicates key df = drop_seen key [] df"

text \<open>Lines 264--279: the data frame of the records, without duplicates, sorted by
  \<open>human_symbol\<close> and \<open>mouse_symbol\<close>; the empty frame is returned as it is.\<close>

definition finish_mapping :: "mapping_record list \<Rightarrow> mapping_record list" where
  "finish_mapping mapping_records =
     (if length mapping_records = 0 then mapping_records
      else sort_key pair_key (drop_duplicates pair_key mapping_records))"

text \<open>Phase 4 of \<open>build_comprehensive_mapping\<close>, from the four dictionaries that
  phases 1--3 obtain from the service.\<close>

definition build_comprehensive_mapping ::
  "(string \<times> int list) list \<Rightarrow> (int \<rightharpoonup> string) \<Rightarrow>
   (string \<times> int list) list \<Rightarrow> (int \<rightharpoonup> string) \<Rightarrow> mapping_record list" where
  "build_comprehensive_mapping human_to_mouse_ids mouse_id_to_symbol
       mouse_to_human_ids human_id_to_symbol =
     finish_mapping
       (human_to_mouse_records human_to_mouse_ids mouse_id_to_symbol @
        mouse_to_human_records mouse_to_human_ids human_id_to_symbol)"

text \<open>\<open>simple_df\<close> of \<open>main\<close> in \<open>02_homology_mapping.py\<close>, the table that step 3
  reads: the two symbol columns, duplicates of whole rows dropped.\<close>

definition simple_mapping :: "mapping_record list \<Rightarrow> (string \<times> string) list" where
  "simple_mapping mapping_df = drop_duplicates (\<lambda>row. row) (map pair_key mapping_df)"

section \<open>Step 4: merging the Ensembl identifiers\<close>

record 'c annotated_row = "'c gene_row" +
  human_ensembl_id :: "string option"
  mouse_ensembl_id :: "string option"

text \<open>Lines 208--235 of \<open>main\<close> in \<open>04_id_annotation.py\<close>: \<open>Series.map\<close> with the two
  dictionaries returned by the lookups; a key the dictionary lacks gives a missing
  value.  The table has been read back from its file, where an empty \<open>mouse_symbol\<close>
  is a missing value and so no key of the dictionary.\<close>

definition annotate ::
  "(string \<rightharpoonup> string) \<Rightarrow> (string \<rightharpoonup> string) \<Rightarrow> 'c gene_row list \<Rightarrow> 'c annotated_row list" where
  "annotate human_ensembl_map mouse_ensembl_map df =
     map (\<lambda>r.
       \<lparr>human_symbol = human_symbol r,
        mouse_symbol = mouse_symbol r,
        category = category r,
        sources = sources r,
        evidence_score = evidence_score r,
        human_ensembl_id = human_ensembl_map (human_symbol r),
        mouse_ensembl_id =
          (if mouse_symbol r = [] then None else mouse_ensembl_map (mouse_symbol r))\<rparr>) df"

section \<open>Step 5: source breakdown\<close>

definition SOURCE_PATTERNS :: "(string \<times> string) list" where
  "SOURCE_PATTERNS =
     [(''KEGG'', ''KEGG''), (''Reactome'', ''Reactome''),
      (''Hallmark'', ''Hallmark''), (''GO'', ''GO_'')]"

definition CATEGORY_ORDER :: "category list" where
  "CATEGORY_ORDER = [Pro_apoptotic, Anti_apoptotic, Ambiguous, Unspecified]"

fun startswith :: "string \<Rightarrow> string \<Rightarrow> bool" where
  "startswith s [] = True"
| "startswith [] (p # ps) = False"
| "startswith (c # cs) (p # ps) = (c = p \<and> startswith cs ps)"

text \<open>\<open>Series.str.contains(pattern)\<close> for a pattern without regular-expression
  metacharacters, as all of \<open>SOURCE_PATTERNS\<close> are: the pattern occurs somewhere
  in the string.\<close>

fun str_contains :: "string \<Rightarrow> string \<Rightarrow> bool" where
  "str_contains [] pattern = (pattern = [])"
| "str_contains (c # cs) pattern = (startswith (c # cs) pattern \<or> str_contains cs pattern)"

definition filter_by_source :: "'c annotated_row list \<Rightarrow> string \<Rightarrow> 'c annotated_row list" where
  "filter_by_source df pattern = filter (\<lambda>r. str_contains (sources r) pattern) df"

text \<open>\<open>add_category_stats\<close>: the count of every category of \<open>CATEGORY_ORDER\<close>, and
  the entry \<open>Total\<close>.\<close>

record category_stats =
  counts :: "(category \<times> int) list"
  Total :: int

definition add_category_stats :: "category annotated_row list \<Rightarrow> category_stats" where
  "add_category_stats df =
     \<lparr>counts = map (\<lambda>cat. (cat, int (length (filter (\<lambda>r. category r = cat) df)))) CATEGORY_ORDER,
      Total = int (length df)\<rparr>"

text \<open>\<open>pd.Categorical(values, categories=CATEGORY_ORDER)\<close>: a value outside the
  categories becomes a missing value.\<close>

definition to_categorical :: "category \<Rightarrow> category option" where
  "to_categorical c = (if c \<in> set CATEGORY_ORDER then Some c else None)"

definition set_categorical :: "category annotated_row \<Rightarrow> category option annotated_row" where
  "set_categorical r =
     \<lparr>human_symbol = human_symbol r,
      mouse_symbol = mouse_symbol r,
      category = to_categorical (category r),
      sources = sources r,
      evidence_score = evidence_score r,
      human_ensembl_id = human_ensembl_id r,
      mouse_ensembl_id = mouse_ensembl_id r\<rparr>"

text \<open>The order of a categorical column is the position in its categories; missing
  values sort last.\<close>

definition category_code :: "category option \<Rightarrow> nat" where
  "category_code c =
     (case c of
        None \<Rightarrow> length CATEGORY_ORDER
      | Some v \<Rightarrow> length (takeWhile (\<lambda>x. x \<noteq> v) CATEGORY_ORDER))"

definition sort_by_category :: "category annotated_row list \<Rightarrow> category option annotated_row list" where
  "sort_by_category df =
     sort_key (\<lambda>r. (category_code (category r), human_symbol r)) (map set_categorical df)"

text \<open>The loop of \<open>main\<close> in \<open>05_source_breakdown.py\<close>: for every configured source,
  its name, its statistics and the table that is saved.\<close>

definition breakdown ::
  "category annotated_row list \<Rightarrow>
   (string \<times> category_stats \<times> category option annotated_row list) list" where
  "breakdown df =
     map (\<lambda>(source_name, pattern).
            let df_source = filter_by_source df pattern
            in (source_name, add_category_stats df_source, sort_by_category df_source))
       SOURCE_PATTERNS"

section \<open>Abstraction of the evidence tracker\<close>

text \<open>The following definitions are not part of the program.  They describe what an
  evidence tracker means once iteration and insertion orders are forgotten: a
  partial map from human symbols to the four sets of a profile.  They are used to
  prove that the consolidated table does not depend on those orders.\<close>

type_synonym evidence_view = "string set \<times> string set \<times> string set \<times> string set"

definition evidence_sets :: "evidence \<Rightarrow> evidence_view" where
  "evidence_sets ev =
     (set (pro_evidence ev), set (anti_evidence ev), set (general_evidence ev),
      set (mouse_symbols ev))"

definition tracker_view :: "gene_evidence \<Rightarrow> (string \<rightharpoonup> evidence_view)" where
  "tracker_view ge = (\<lambda>k. map_option evidence_sets (map_of ge k))"

definition view_union :: "evidence_view \<Rightarrow> evidence_view \<Rightarrow> evidence_view" where
  "view_union v w =
     (case v of (p, a, g, m) \<Rightarrow> case w of (p', a', g', m') \<Rightarrow>
        (p \<union> p', a \<union> a', g \<union> g', m \<union> m'))"

definition file_view ::
  "evidence_view \<Rightarrow> string \<Rightarrow> (string \<rightharpoonup> evidence_view) \<Rightarrow> (string \<rightharpoonup> evidence_view)" where
  "file_view c k m =
     m(k \<mapsto> view_union c (case m k of None \<Rightarrow> ({}, {}, {}, {}) | Some v \<Rightarrow> v))"

text \<open>The sets filed under a key, all empty when the key is absent.\<close>

definition view_at :: "(string \<rightharpoonup> evidence_view) \<Rightarrow> string \<Rightarrow> evidence_view" where
  "view_at m k = (case m k of None \<Rightarrow> ({}, {}, {}, {}) | Some v \<Rightarrow> v)"

section \<open>Example data\<close>

text \<open>The scenarios of the specification in one input: \<open>TP53\<close> with pro-apoptotic
  and general evidence and the ortholog \<open>Trp53\<close>, \<open>BCL2\<close> with anti-apoptotic evidence,
  the mouse gene \<open>Bax\<close> mapped to \<open>BAX\<close>, and two genes with general evidence only.\<close>

abbreviation example_orthology :: orthology where
  "example_orthology \<equiv> load_orthology_mapping [(''BAX'', ''Bax''), (''TP53'', ''Trp53'')]"

abbreviation example_sources :: source_sets where
  "example_sources \<equiv>
     \<lparr>GO_Pro_Human = [''TP53''], GO_Anti_Human = [''BCL2''], GO_Pro_Mouse = [],
      GO_Anti_Mouse = [''Bax''], KEGG = [''TP53'', ''C1orf112'', ''C1QA''],
      Reactome = [], Hallmark = []\<rparr>"

abbreviation example_table :: "category gene_row list" where
  "example_table \<equiv>
     [\<lparr>human_symbol = ''TP53'', mouse_symbol = ''Trp53'', category = Pro_apoptotic,
       sources = ''GO_Pro_Human,KEGG'', evidence_score = 2\<rparr>,
      \<lparr>human_symbol = ''BAX'', mouse_symbol = ''Bax'', category = Anti_apoptotic,
       sources = ''GO_Anti_Mouse'', evidence_score = 1\<rparr>,
      \<lparr>human_symbol = ''BCL2'', mouse_symbol = [], category = Anti_apoptotic,
       sources = ''GO_Anti_Human'', evidence_score = 1\<rparr>,
      \<lparr>human_symbol = ''C1QA'', mouse_symbol = [], category = Unspecified,
       sources = ''KEGG'', evidence_score = 1\<rparr>,
      \<lparr>human_symbol = ''C1orf112'', mouse_symbol = [], category = Unspecified,
       sources = ''KEGG'', evidence_score = 1\<rparr>]"

text \<open>Two lists of mapping records with the same symbol pairs, found in different
  orders and directions, and the gene sets above iterated in another order.\<close>

abbreviation example_records :: "mapping_record list" where
  "example_records \<equiv>
     [\<lparr>pair_human_symbol = ''TP53'', pair_mouse_symbol = ''Trp53'', human_entrez = None,
       mouse_entrez = Some 22059, mapping_source = human_to_mouse\<rparr>,
      \<lparr>pair_human_symbol = ''BAX'', pair_mouse_symbol = ''Bax'', human_entrez = Some 581,
       mouse_entrez = None, mapping_source = mouse_to_human\<rparr>]"

abbreviation example_records_reordered :: "mapping_record list" where
  "example_records_reordered \<equiv>
     [\<lparr>pair_human_symbol = ''BAX'', pair_mouse_symbol = ''Bax'', human_entrez = Some 581,
       mouse_entrez = None, mapping_source = mouse_to_human\<rparr>,
      \<lparr>pair_human_symbol = ''TP53'', pair_mouse_symbol = ''Trp53'', human_entrez = Some 7157,
       mouse_entrez = None, mapping_source = mouse_to_human\<rparr>,
      \<lparr>pair_human_symbol = ''TP53'', pair_mouse_symbol = ''Trp53'', human_entrez = None,
       mouse_entrez = Some 22059, mapping_source = human_to_mouse\<rparr>]"

abbreviation example_sources_reordered :: source_sets where
  "example_sources_reordered \<equiv>
     \<lparr>GO_Pro_Human = [''TP53''], GO_Anti_Human = [''BCL2''], GO_Pro_Mouse = [],
      GO_Anti_Mouse = [''Bax''], KEGG = [''C1QA'', ''C1orf112'', ''TP53''],
      Reactome = [], Hallmark = []\<rparr>"

text \<open>Gene sets with mouse records: one of each polarity that the reverse index
  resolves, and one that it does not.\<close>

abbreviation example_mouse_sources :: source_sets where
  "example_mouse_sources \<equiv>
     \<lparr>GO_Pro_Human = [], GO_Anti_Human = [], GO_Pro_Mouse = [''Trp53'', ''Xyz''],
      GO_Anti_Mouse = [''Bax''], KEGG = [''TP53''], Reactome = [], Hallmark = []\<rparr>"

section \<open>Auxiliary lemmas\<close>

subsection \<open>Sets as lists\<close>

lemma set_set_add: "set (set_add x xs) = insert x (set xs)"
  by (auto simp: set_add_def)

lemma distinct_set_add: "distinct xs \<Longrightarrow> distinct (set_add x xs)"
  by (simp add: set_add_def)

lemma set_set_update: "set (set_update acc xs) = set acc \<union> set xs"
  unfolding set_update_def by (induction xs arbitrary: acc) (auto simp: set_set_add)

lemma distinct_set_update: "distinct acc \<Longrightarrow> distinct (set_update acc xs)"
  unfolding set_update_def by (induction xs arbitrary: acc) (auto simp: distinct_set_add)

lemma set_all_sources:
  "set (all_sources ev) = set (pro_evidence ev) \<union> set (anti_evidence ev) \<union> set (general_evidence ev)"
  by (simp add: all_sources_def set_set_update)

lemma distinct_all_sources: "distinct (all_sources ev)"
  by (simp add: all_sources_def distinct_set_update)

lemma length_all_sources:
  "length (all_sources ev) =
     card (set (pro_evidence ev) \<union> set (anti_evidence ev) \<union> set (general_evidence ev))"
  using distinct_card [OF distinct_all_sources, of ev] by (simp add: set_all_sources)

subsection \<open>The evidence tracker\<close>

lemma keys_dd_update:
  "map fst (dd_update f k ge) = (if k \<in> set (map fst ge) then map fst ge else map fst ge @ [k])"
  by (induction ge) force+

lemma distinct_keys_dd_update:
  "distinct (map fst ge) \<Longrightarrow> distinct (map fst (dd_update f k ge))"
  by (simp add: keys_dd_update)

lemma map_of_dd_update:
  "map_of (dd_update f k ge) =
     (map_of ge)(k \<mapsto> f (case map_of ge k of None \<Rightarrow> default_evidence | Some v \<Rightarrow> v))"
  by (induction ge) (auto simp: fun_eq_iff)

lemma key_in_dd_update: "k \<in> set (map fst (dd_update f k ge))"
  by (simp add: keys_dd_update)

lemma fold_invariant:
  assumes "\<And>x s. P s \<Longrightarrow> P (f x s)" and "P s"
  shows "P (fold f xs s)"
  using assms(2) by (induction xs arbitrary: s) (auto intro: assms(1))

text \<open>Every state of the tracker is reached from the empty one by filing steps; a
  mouse symbol is only ever added to a profile that exists already.\<close>

lemma human_step_invariant:
  assumes step: "\<And>ad s k g. P g \<Longrightarrow>
      ad \<in> {add_pro, add_anti, add_general} \<or> ad = add_mouse \<and> k \<in> set (map fst g) \<Longrightarrow>
      P (dd_update (ad s) k g)"
    and ad: "ad \<in> {add_pro, add_anti, add_general}"
    and P: "P ge"
  shows "P (human_step ad s h gene ge)"
proof -
  have P1: "P (dd_update (ad s) gene ge)"
    by (rule step [where ad = ad]) (use P ad in auto)
  have "P (fold (\<lambda>mouse. dd_update (add_mouse mouse) gene) ms g)"
    if "P g" "gene \<in> set (map fst g)" for ms g
    using that
  proof (induction ms arbitrary: g)
    case Nil
    then show ?case by simp
  next
    case (Cons m ms)
    have "P (dd_update (add_mouse m) gene g)"
      by (rule step [where ad = add_mouse]) (use Cons.prems in auto)
    then show ?case
      using Cons.IH [of "dd_update (add_mouse m) gene g"] key_in_dd_update by simp
  qed
  with P1 show ?thesis
    using key_in_dd_update by (simp add: human_step_def Let_def split: option.split)
qed

lemma mouse_step_invariant:
  assumes step: "\<And>ad s k g. P g \<Longrightarrow>
      ad \<in> {add_pro, add_anti, add_general} \<or> ad = add_mouse \<and> k \<in> set (map fst g) \<Longrightarrow>
      P (dd_update (ad s) k g)"
    and ad: "ad \<in> {add_pro, add_anti, add_general}"
    and P: "P ge"
  shows "P (mouse_step ad s m x ge)"
proof (cases "m x")
  case None
  then show ?thesis using P by (simp add: mouse_step_def)
next
  case (Some hg)
  have "P (dd_update (ad s) hg ge)"
    by (rule step [where ad = ad]) (use P ad in auto)
  then have "P (dd_update (add_mouse x) hg (dd_update (ad s) hg ge))"
    by (rule step [where ad = add_mouse]) (use key_in_dd_update in auto)
  with Some show ?thesis by (simp add: mouse_step_def)
qed

lemma aggregate_invariant:
  assumes init: "P []"
    and step: "\<And>ad s k g. P g \<Longrightarrow>
      ad \<in> {add_pro, add_anti, add_general} \<or> ad = add_mouse \<and> k \<in> set (map fst g) \<Longrightarrow>
      P (dd_update (ad s) k g)"
  shows "P (aggregate orth srcs)"
proof -
  have H: "P (fold (human_step ad s h) xs g)"
    if "ad \<in> {add_pro, add_anti, add_general}" "P g" for ad s h xs g
  proof (rule fold_invariant)
    show "P (human_step ad s h x a)" if "P a" for x a
      using that \<open>ad \<in> _\<close> by (intro human_step_invariant [where P = P] step)
  qed (rule that)
  have M: "P (fold (mouse_step ad s m) xs g)"
    if "ad \<in> {add_pro, add_anti, add_general}" "P g" for ad s m xs g
  proof (rule fold_invariant)
    show "P (mouse_step ad s m x a)" if "P a" for x a
      using that \<open>ad \<in> _\<close> by (intro mouse_step_invariant [where P = P] step)
  qed (rule that)
  show ?thesis
    unfolding aggregate_def Let_def
    by (simp add: H M init)
qed

lemma distinct_keys_aggregate: "distinct (map fst (aggregate orth srcs))"
  by (rule aggregate_invariant) (simp_all add: distinct_keys_dd_update)

lemma dd_update_forall:
  assumes "\<forall>(k', v) \<in> set ge. Q v"
    and "\<And>v. Q v \<Longrightarrow> Q (f v)"
    and "k \<notin> set (map fst ge) \<Longrightarrow> Q (f default_evidence)"
  shows "\<forall>(k', v) \<in> set (dd_update f k ge). Q v"
  using assms(1,3)
proof (induction ge)
  case Nil
  then show ?case by simp
next
  case (Cons p ge)
  obtain k' v where p: "p = (k', v)" by (cases p)
  show ?case
  proof (cases "k = k'")
    case True
    with Cons.prems p show ?thesis by (auto intro: assms(2))
  next
    case False
    with Cons.prems p have "\<forall>(k', v) \<in> set (dd_update f k ge). Q v"
      by (intro Cons.IH) auto
    with False Cons.prems p show ?thesis by auto
  qed
qed

lemma has_evidence_aggregate:
  "\<forall>(g, ev) \<in> set (aggregate orth srcs).
     pro_evidence ev \<noteq> [] \<or> anti_evidence ev \<noteq> [] \<or> general_evidence ev \<noteq> []"
proof (rule aggregate_invariant)
  fix ad :: "string \<Rightarrow> evidence \<Rightarrow> evidence" and s k and g :: gene_evidence
  let ?Q = "\<lambda>ev. pro_evidence ev \<noteq> [] \<or> anti_evidence ev \<noteq> [] \<or> general_evidence ev \<noteq> []"
  assume g: "\<forall>(g, ev) \<in> set g. ?Q ev"
    and ad: "ad \<in> {add_pro, add_anti, add_general} \<or> ad = add_mouse \<and> k \<in> set (map fst g)"
  have nonempty: "set_add x xs \<noteq> []" for x :: string and xs
    by (auto simp: set_add_def)
  show "\<forall>(g, ev) \<in> set (dd_update (ad s) k g). ?Q ev"
  proof (rule dd_update_forall [OF g])
    show "?Q (ad s v)" if "?Q v" for v
      using that ad nonempty by (auto simp: add_pro_def add_anti_def add_general_def add_mouse_def)
    show "?Q (ad s default_evidence)" if "k \<notin> set (map fst g)"
      using that ad nonempty by (auto simp: add_pro_def add_anti_def add_general_def)
  qed
qed simp

lemma wf_evidence_aggregate:
  "\<forall>(g, ev) \<in> set (aggregate orth srcs).
     distinct (pro_evidence ev) \<and> distinct (anti_evidence ev) \<and>
     distinct (general_evidence ev) \<and> distinct (mouse_symbols ev)"
proof (rule aggregate_invariant)
  fix ad :: "string \<Rightarrow> evidence \<Rightarrow> evidence" and s k and g :: gene_evidence
  let ?Q = "\<lambda>ev. distinct (pro_evidence ev) \<and> distinct (anti_evidence ev) \<and>
     distinct (general_evidence ev) \<and> distinct (mouse_symbols ev)"
  assume g: "\<forall>(g, ev) \<in> set g. ?Q ev"
    and ad: "ad \<in> {add_pro, add_anti, add_general} \<or> ad = add_mouse \<and> k \<in> set (map fst g)"
  have step: "?Q (ad s v)" if "?Q v" for v
    using that ad
    by (auto simp: add_pro_def add_anti_def add_general_def add_mouse_def distinct_set_add)
  show "\<forall>(g, ev) \<in> set (dd_update (ad s) k g). ?Q ev"
  proof (rule dd_update_forall [OF g])
    show "?Q (ad s v)" if "?Q v" for v by (rule step [OF that])
    show "?Q (ad s default_evidence)"
      by (rule step) (simp add: default_evidence_def)
  qed
qed simp

subsection \<open>The rows of the consolidated table\<close>

lemma consolidate_genes_rows:
  assumes "consolidate_genes orth srcs = Inr tbl"
  shows "tbl = sort_key sort_columns (map consolidate_entry (aggregate orth srcs))"
  using assms by (simp add: consolidate_genes_def Let_def split: if_splits)

lemma set_consolidate_genes:
  assumes "consolidate_genes orth srcs = Inr tbl"
  shows "set tbl = consolidate_entry ` set (aggregate orth srcs)"
  by (simp add: consolidate_genes_rows [OF assms])

lemma human_symbol_consolidate_entry: "human_symbol (consolidate_entry item) = fst item"
  by (simp add: consolidate_entry_def Let_def)

lemma map_of_aggregate:
  "(g, ev) \<in> set (aggregate orth srcs) \<Longrightarrow> map_of (aggregate orth srcs) g = Some ev"
  by (simp add: distinct_keys_aggregate)

lemma distinct_map_insort_key:
  "distinct (map h (insort_key f x xs)) = distinct (map h (x # xs))"
  by (induction xs) (auto simp: set_insort_key)

lemma distinct_map_sort_key: "distinct (map h (sort_key f xs)) = distinct (map h xs)"
  by (induction xs) (simp_all add: distinct_map_insort_key)

lemma distinct_human_symbols:
  assumes "consolidate_genes orth srcs = Inr tbl"
  shows "distinct (map human_symbol tbl)"
proof -
  have "map human_symbol (map consolidate_entry (aggregate orth srcs)) = map fst (aggregate orth srcs)"
    by (simp add: human_symbol_consolidate_entry comp_def)
  then have d: "distinct (map human_symbol (map consolidate_entry (aggregate orth srcs)))"
    by (simp only: distinct_keys_aggregate)
  show ?thesis
    unfolding consolidate_genes_rows [OF assms]
    using d by (simp only: distinct_map_sort_key)
qed

lemma m2h_foldl_load_row:
  "m2h (foldl load_row orth df) mouse =
     (case find (\<lambda>row. snd row = mouse) (rev df) of
        None \<Rightarrow> m2h orth mouse
      | Some row \<Rightarrow> Some (fst row))"
  by (induction df rule: rev_induct) (simp_all add: load_row_def Let_def)

lemma example_run: "consolidate_genes example_orthology example_sources = Inr example_table"
  by code_simp

subsection \<open>The tracker as a map of sets\<close>

lemma view_union_assoc: "view_union a (view_union b c) = view_union (view_union a b) c"
  by (auto simp: view_union_def split: prod.splits)

lemma view_union_commute: "view_union a b = view_union b a"
  by (auto simp: view_union_def split: prod.splits)

lemma view_union_left_commute: "view_union a (view_union b c) = view_union b (view_union a c)"
  by (auto simp: view_union_def split: prod.splits)

lemma view_union_idem: "view_union a (view_union a b) = view_union a b"
  by (auto simp: view_union_def split: prod.splits)

lemma view_union_empty: "view_union a ({}, {}, {}, {}) = a"
  by (auto simp: view_union_def split: prod.splits)

lemma file_view_merge: "file_view c k (file_view c' k m) = file_view (view_union c c') k m"
  by (simp add: file_view_def view_union_assoc)

lemma file_view_commute:
  "file_view c k (file_view c' k' m) = file_view c' k' (file_view c k m)"
  by (auto simp: file_view_def fun_upd_twist view_union_left_commute)

lemma file_view_idem: "file_view c k (file_view c k m) = file_view c k m"
  by (simp add: file_view_def view_union_idem)

lemma evidence_sets_default: "evidence_sets default_evidence = ({}, {}, {}, {})"
  by (simp add: evidence_sets_def default_evidence_def)

lemma tracker_view_dd_update:
  assumes "\<And>e. evidence_sets (f e) = view_union c (evidence_sets e)"
  shows "tracker_view (dd_update f k ge) = file_view c k (tracker_view ge)"
  by (auto simp: tracker_view_def file_view_def map_of_dd_update assms evidence_sets_default
      fun_eq_iff split: option.splits)

lemma evidence_sets_add_pro:
  "evidence_sets (add_pro s e) = view_union ({s}, {}, {}, {}) (evidence_sets e)"
  by (simp add: evidence_sets_def add_pro_def view_union_def set_set_add)

lemma evidence_sets_add_anti:
  "evidence_sets (add_anti s e) = view_union ({}, {s}, {}, {}) (evidence_sets e)"
  by (simp add: evidence_sets_def add_anti_def view_union_def set_set_add)

lemma evidence_sets_add_general:
  "evidence_sets (add_general s e) = view_union ({}, {}, {s}, {}) (evidence_sets e)"
  by (simp add: evidence_sets_def add_general_def view_union_def set_set_add)

lemma evidence_sets_add_mouse:
  "evidence_sets (add_mouse s e) = view_union ({}, {}, {}, {s}) (evidence_sets e)"
  by (simp add: evidence_sets_def add_mouse_def view_union_def set_set_add)

lemma tracker_view_fold:
  assumes "\<And>x g. tracker_view (step x g) = astep x (tracker_view g)"
  shows "tracker_view (fold step xs g) = fold astep xs (tracker_view g)"
  by (induction xs arbitrary: g) (simp_all add: assms)

lemma fold_file_mice:
  "fold (\<lambda>mouse. file_view ({}, {}, {}, {mouse}) gene) ms (file_view c gene m) =
     file_view (view_union c ({}, {}, {}, set ms)) gene m"
proof (induction ms arbitrary: c)
  case Nil
  then show ?case by (simp add: view_union_empty)
next
  case (Cons x ms)
  have "view_union (view_union ({}, {}, {}, {x}) c) ({}, {}, {}, set ms) =
        view_union c ({}, {}, {}, set (x # ms))"
    by (auto simp: view_union_def split: prod.splits)
  then show ?case
    by (simp add: file_view_merge Cons.IH)
qed

lemma tracker_view_human_step:
  assumes ad: "\<And>e. evidence_sets (ad s e) = view_union c (evidence_sets e)"
  shows "tracker_view (human_step ad s h gene ge) =
           file_view (view_union c ({}, {}, {}, case h gene of None \<Rightarrow> {} | Some ms \<Rightarrow> set ms))
             gene (tracker_view ge)"
proof (cases "h gene")
  case None
  then show ?thesis
    by (simp add: human_step_def tracker_view_dd_update [OF ad] view_union_empty)
next
  case (Some ms)
  have "tracker_view (fold (\<lambda>mouse. dd_update (add_mouse mouse) gene) ms (dd_update (ad s) gene ge)) =
        fold (\<lambda>mouse. file_view ({}, {}, {}, {mouse}) gene) ms (tracker_view (dd_update (ad s) gene ge))"
    by (rule tracker_view_fold) (rule tracker_view_dd_update [OF evidence_sets_add_mouse])
  with Some show ?thesis
    by (simp add: human_step_def tracker_view_dd_update [OF ad] fold_file_mice)
qed

lemma tracker_view_mouse_step:
  assumes ad: "\<And>e. evidence_sets (ad s e) = view_union c (evidence_sets e)"
  shows "tracker_view (mouse_step ad s m x ge) =
           (case m x of
              None \<Rightarrow> tracker_view ge
            | Some hg \<Rightarrow> file_view (view_union ({}, {}, {}, {x}) c) hg (tracker_view ge))"
  by (simp add: mouse_step_def tracker_view_dd_update [OF ad]
      tracker_view_dd_update [OF evidence_sets_add_mouse] file_view_merge split: option.split)

text \<open>A fold of steps that commute and are idempotent depends on the set of the
  elements only.\<close>

lemma fold_push:
  assumes comm: "\<And>x y s. f x (f y s) = f y (f x s)"
  shows "fold f xs (f x t) = f x (fold f xs t)"
proof (induction xs arbitrary: t)
  case Nil
  then show ?case by simp
next
  case (Cons a xs)
  have "fold f (a # xs) (f x t) = fold f xs (f a (f x t))"
    by simp
  also have "f a (f x t) = f x (f a t)"
    by (rule comm)
  also have "fold f xs (f x (f a t)) = f x (fold f xs (f a t))"
    by (rule Cons.IH)
  finally show ?case by simp
qed

lemma fold_absorb:
  assumes comm: "\<And>x y s. f x (f y s) = f y (f x s)"
    and idem: "\<And>x s. f x (f x s) = f x s"
    and "x \<in> set xs"
  shows "f x (fold f xs s) = fold f xs s"
  using assms(3)
proof (induction xs arbitrary: s)
  case Nil
  then show ?case by simp
next
  case (Cons y xs)
  show ?case
  proof (cases "x = y")
    case True
    have "f x (fold f (y # xs) s) = fold f xs (f x (f x s))"
      using True by (simp add: fold_push [of f, OF comm])
    then show ?thesis
      using True by (simp add: idem)
  next
    case False
    with Cons show ?thesis by simp
  qed
qed

lemma fold_set_cong:
  assumes comm: "\<And>x y s. f x (f y s) = f y (f x s)"
    and idem: "\<And>x s. f x (f x s) = f x s"
    and sets: "set xs = set ys"
  shows "fold f xs s = fold f ys s"
proof -
  have sub: "fold f as (fold f bs t) = fold f bs t" if "set as \<subseteq> set bs" for as bs t
    using that
  proof (induction as)
    case Nil
    then show ?case by simp
  next
    case (Cons a as)
    have "fold f (a # as) (fold f bs t) = fold f as (f a (fold f bs t))"
      by simp
    also have "f a (fold f bs t) = fold f bs t"
      using Cons.prems by (intro fold_absorb [of f, OF comm idem]) simp
    also have "fold f as (fold f bs t) = fold f bs t"
      using Cons by simp
    finally show ?case .
  qed
  have swap: "fold f as (fold f bs t) = fold f bs (fold f as t)" for as bs t
  proof (induction as arbitrary: t)
    case Nil
    then show ?case by simp
  next
    case (Cons a as)
    have "fold f (a # as) (fold f bs t) = fold f as (f a (fold f bs t))"
      by simp
    also have "f a (fold f bs t) = fold f bs (f a t)"
      by (rule fold_push [of f, OF comm, symmetric])
    also have "fold f as (fold f bs (f a t)) = fold f bs (fold f as (f a t))"
      by (rule Cons.IH)
    finally show ?case by simp
  qed
  have "fold f xs s = fold f ys (fold f xs s)"
    using sub [of ys xs s] sets by simp
  also have "\<dots> = fold f xs (fold f ys s)"
    by (rule swap)
  also have "\<dots> = fold f ys s"
    using sub [of xs ys s] sets by simp
  finally show ?thesis .
qed

lemma human_loop_view:
  assumes ad: "\<And>e. evidence_sets (ad s e) = view_union c (evidence_sets e)"
    and sets: "set xs = set ys"
    and view: "tracker_view g1 = tracker_view g2"
  shows "tracker_view (fold (human_step ad s h) xs g1) =
         tracker_view (fold (human_step ad s h) ys g2)"
proof -
  let ?astep = "\<lambda>gene. file_view
      (view_union c ({}, {}, {}, case h gene of None \<Rightarrow> {} | Some ms \<Rightarrow> set ms)) gene"
  have v: "tracker_view (fold (human_step ad s h) zs g) = fold ?astep zs (tracker_view g)" for zs g
    by (rule tracker_view_fold) (rule tracker_view_human_step [where ad = ad and s = s and c = c, OF ad])
  have "fold ?astep xs (tracker_view g1) = fold ?astep ys (tracker_view g1)"
    by (rule fold_set_cong [OF _ _ sets]) (simp_all add: file_view_commute file_view_idem)
  then show ?thesis
    by (simp add: v view)
qed

lemma mouse_loop_view:
  assumes ad: "\<And>e. evidence_sets (ad s e) = view_union c (evidence_sets e)"
    and sets: "set xs = set ys"
    and view: "tracker_view g1 = tracker_view g2"
  shows "tracker_view (fold (mouse_step ad s m) xs g1) =
         tracker_view (fold (mouse_step ad s m) ys g2)"
proof -
  let ?astep = "\<lambda>x v. case m x of
      None \<Rightarrow> v
    | Some hg \<Rightarrow> file_view (view_union ({}, {}, {}, {x}) c) hg v"
  have v: "tracker_view (fold (mouse_step ad s m) zs g) = fold ?astep zs (tracker_view g)" for zs g
    by (rule tracker_view_fold) (rule tracker_view_mouse_step [where ad = ad and s = s and c = c, OF ad])
  have "fold ?astep xs (tracker_view g1) = fold ?astep ys (tracker_view g1)"
    by (rule fold_set_cong [OF _ _ sets])
      (simp_all add: file_view_commute file_view_idem split: option.split)
  then show ?thesis
    by (simp add: v view)
qed

lemma aggregate_view:
  assumes "set (GO_Pro_Human s1) = set (GO_Pro_Human s2)"
    and "set (GO_Anti_Human s1) = set (GO_Anti_Human s2)"
    and "set (GO_Pro_Mouse s1) = set (GO_Pro_Mouse s2)"
    and "set (GO_Anti_Mouse s1) = set (GO_Anti_Mouse s2)"
    and "set (KEGG s1) = set (KEGG s2)"
    and "set (Reactome s1) = set (Reactome s2)"
    and "set (Hallmark s1) = set (Hallmark s2)"
  shows "tracker_view (aggregate orth s1) = tracker_view (aggregate orth s2)"
  unfolding aggregate_def Let_def
  apply simp
  apply (intro human_loop_view [OF evidence_sets_add_general] assms
      mouse_loop_view [OF evidence_sets_add_anti] mouse_loop_view [OF evidence_sets_add_pro]
      human_loop_view [OF evidence_sets_add_anti] human_loop_view [OF evidence_sets_add_pro] refl)
  done

subsection \<open>The table depends on the map of sets only\<close>

lemma consolidate_entry_cong:
  assumes d1: "distinct (mouse_symbols e1)" and d2: "distinct (mouse_symbols e2)"
    and v: "evidence_sets e1 = evidence_sets e2"
  shows "consolidate_entry (k, e1) = consolidate_entry (k, e2)"
proof -
  from v have p: "set (pro_evidence e1) = set (pro_evidence e2)"
    and a: "set (anti_evidence e1) = set (anti_evidence e2)"
    and g: "set (general_evidence e1) = set (general_evidence e2)"
    and m: "set (mouse_symbols e1) = set (mouse_symbols e2)"
    by (simp_all add: evidence_sets_def)
  have mouse: "sort (mouse_symbols e1) = sort (mouse_symbols e2)"
    by (rule sorted_distinct_set_unique) (simp_all add: d1 d2 m)
  have "pro_evidence e1 = [] \<longleftrightarrow> pro_evidence e2 = []"
    using p by (metis set_empty)
  moreover have "anti_evidence e1 = [] \<longleftrightarrow> anti_evidence e2 = []"
    using a by (metis set_empty)
  moreover have "general_evidence e1 = [] \<longleftrightarrow> general_evidence e2 = []"
    using g by (metis set_empty)
  ultimately have cat: "categorize e1 = categorize e2"
    by (simp add: categorize_def)
  have s: "set (all_sources e1) = set (all_sources e2)"
    by (simp add: set_all_sources p a g)
  have src: "sort (all_sources e1) = sort (all_sources e2)"
    by (rule sorted_distinct_set_unique) (simp_all add: distinct_all_sources s)
  have len: "length (all_sources e1) = length (all_sources e2)"
    by (simp add: length_all_sources p a g)
  show ?thesis
    by (simp add: consolidate_entry_def Let_def mouse cat src len)
qed

lemma rows_subset:
  assumes k1: "distinct (map fst ge1)"
    and w1: "\<forall>(g, ev) \<in> set ge1. distinct (mouse_symbols ev)"
    and w2: "\<forall>(g, ev) \<in> set ge2. distinct (mouse_symbols ev)"
    and v: "tracker_view ge1 = tracker_view ge2"
  shows "consolidate_entry ` set ge1 \<subseteq> consolidate_entry ` set ge2"
proof
  fix r assume "r \<in> consolidate_entry ` set ge1"
  then obtain k e1 where in1: "(k, e1) \<in> set ge1" and r: "r = consolidate_entry (k, e1)"
    by auto
  from in1 k1 have "map_of ge1 k = Some e1" by simp
  moreover have "tracker_view ge1 k = tracker_view ge2 k"
    by (simp only: v)
  ultimately have "map_option evidence_sets (map_of ge2 k) = Some (evidence_sets e1)"
    by (simp add: tracker_view_def)
  then obtain e2 where m2: "map_of ge2 k = Some e2" and es: "evidence_sets e2 = evidence_sets e1"
    by (cases "map_of ge2 k") auto
  from m2 have in2: "(k, e2) \<in> set ge2" by (rule map_of_SomeD)
  have "consolidate_entry (k, e1) = consolidate_entry (k, e2)"
    using in1 in2 w1 w2 es by (intro consolidate_entry_cong) auto
  with in2 r show "r \<in> consolidate_entry ` set ge2" by auto
qed

lemma sort_key_unique:
  assumes "distinct (map f xs)" and "distinct (map f ys)" and "set xs = set ys"
  shows "sort_key f xs = sort_key f ys"
proof (rule map_sorted_distinct_set_unique [where f = f])
  show "inj_on f (set (sort_key f xs) \<union> set (sort_key f ys))"
    using assms by (simp add: distinct_map)
  show "distinct (map f (sort_key f xs))" "distinct (map f (sort_key f ys))"
    using assms by (simp_all add: distinct_map_sort_key)
qed (simp_all add: assms)

lemma distinct_sort_columns:
  assumes "distinct (map human_symbol rows)"
  shows "distinct (map sort_columns rows)"
proof -
  have "map snd (map sort_columns rows) = map human_symbol rows"
    by (simp add: sort_columns_def comp_def)
  with assms have "distinct (map snd (map sort_columns rows))"
    by (simp only:)
  then show ?thesis
    by (auto simp: distinct_map dest: inj_on_imageI2)
qed

lemma consolidate_genes_view:
  assumes "tracker_view (aggregate orth1 s1) = tracker_view (aggregate orth2 s2)"
  shows "consolidate_genes orth1 s1 = consolidate_genes orth2 s2"
proof -
  let ?g1 = "aggregate orth1 s1" and ?g2 = "aggregate orth2 s2"
  have w: "\<forall>(g, ev) \<in> set (aggregate orth srcs). distinct (mouse_symbols ev)" for orth srcs
    using wf_evidence_aggregate [of orth srcs] by auto
  have sets: "set (map consolidate_entry ?g1) = set (map consolidate_entry ?g2)"
    using rows_subset [OF distinct_keys_aggregate w w assms]
      rows_subset [OF distinct_keys_aggregate w w assms [symmetric]]
    by auto
  have d: "distinct (map sort_columns (map consolidate_entry (aggregate orth srcs)))" for orth srcs
  proof (rule distinct_sort_columns)
    have "map human_symbol (map consolidate_entry (aggregate orth srcs)) = map fst (aggregate orth srcs)"
      by (simp add: human_symbol_consolidate_entry comp_def)
    then show "distinct (map human_symbol (map consolidate_entry (aggregate orth srcs)))"
      by (simp only: distinct_keys_aggregate)
  qed
  have sorted: "sort_key sort_columns (map consolidate_entry ?g1) =
                sort_key sort_columns (map consolidate_entry ?g2)"
    by (rule sort_key_unique [OF d d sets])
  have empty: "map consolidate_entry ?g1 = [] \<longleftrightarrow> map consolidate_entry ?g2 = []"
    using sets by (metis set_empty)
  show ?thesis
    unfolding consolidate_genes_def Let_def using sorted empty by simp
qed

subsection \<open>Dropping duplicates\<close>

lemma set_drop_seen: "key ` set (drop_seen key seen rs) = key ` set rs - set seen"
  by (induction rs arbitrary: seen) auto

lemma distinct_drop_seen: "distinct (map key (drop_seen key seen rs))"
proof (induction rs arbitrary: seen)
  case Nil
  then show ?case by simp
next
  case (Cons r rs)
  have "key r \<notin> key ` set (drop_seen key (key r # seen) rs)"
    by (simp add: set_drop_seen)
  with Cons show ?case by simp
qed

lemma filter_drop_seen:
  "filter (\<lambda>r. key r = k) (drop_seen key seen rs) =
     (if k \<in> set seen then []
      else case find (\<lambda>r. key r = k) rs of None \<Rightarrow> [] | Some r \<Rightarrow> [r])"
proof (induction rs arbitrary: seen)
  case Nil
  then show ?case by simp
next
  case (Cons r rs)
  show ?case
  proof (cases "key r \<in> set seen")
    case True
    with Cons show ?thesis by auto
  next
    case False
    with Cons show ?thesis by auto
  qed
qed

lemma drop_seen_distinct:
  "distinct rs \<Longrightarrow> set rs \<inter> set seen = {} \<Longrightarrow> drop_seen (\<lambda>row. row) seen rs = rs"
  by (induction rs arbitrary: seen) auto

lemma filter_finish_mapping:
  "filter (\<lambda>r. pair_key r = k) (finish_mapping recs) =
     (case find (\<lambda>r. pair_key r = k) recs of None \<Rightarrow> [] | Some r \<Rightarrow> [r])"
proof (cases "recs = []")
  case True
  then show ?thesis by (simp add: finish_mapping_def)
next
  case False
  then show ?thesis
    by (simp add: finish_mapping_def drop_duplicates_def sort_key_stable filter_drop_seen)
qed

lemma keys_finish_mapping:
  "sorted (map pair_key (finish_mapping recs)) \<and> distinct (map pair_key (finish_mapping recs))
   \<and> set (map pair_key (finish_mapping recs)) = set (map pair_key recs)"
proof (cases "recs = []")
  case True
  then show ?thesis by (simp add: finish_mapping_def)
next
  case False
  have "pair_key ` set (drop_seen pair_key [] recs) = pair_key ` set recs"
    by (simp add: set_drop_seen)
  with False show ?thesis
    by (simp add: finish_mapping_def drop_duplicates_def distinct_map_sort_key distinct_drop_seen)
qed

lemma simple_mapping_keys: "simple_mapping (finish_mapping recs) = map pair_key (finish_mapping recs)"
  using keys_finish_mapping [of recs]
  by (simp add: simple_mapping_def drop_duplicates_def drop_seen_distinct)

lemma simple_mapping_cong:
  assumes "set (map pair_key recs1) = set (map pair_key recs2)"
  shows "simple_mapping (finish_mapping recs1) = simple_mapping (finish_mapping recs2)"
  unfolding simple_mapping_keys
  using keys_finish_mapping [of recs1] keys_finish_mapping [of recs2] assms
  by (intro sorted_distinct_set_unique) simp_all

subsection \<open>Categories of the table\<close>

lemma table_categories:
  assumes "consolidate_genes orth srcs = Inr tbl" and "e \<in> set tbl"
  shows "category e \<in> set CATEGORY_ORDER"
proof -
  from assms obtain g ev where item: "(g, ev) \<in> set (aggregate orth srcs)"
    and e: "e = consolidate_entry (g, ev)"
    by (auto simp: set_consolidate_genes)
  from item has_evidence_aggregate [of orth srcs]
  have "pro_evidence ev \<noteq> [] \<or> anti_evidence ev \<noteq> [] \<or> general_evidence ev \<noteq> []"
    by auto
  then show ?thesis
    unfolding e by (auto simp: consolidate_entry_def categorize_def Let_def CATEGORY_ORDER_def)
qed

lemma category_counts_total:
  assumes "\<forall>r \<in> set xs. category r \<in> set CATEGORY_ORDER"
  shows "sum_list (map snd (counts (add_category_stats xs))) = int (length xs)"
proof -
  have "length (filter (\<lambda>r. category r = Pro_apoptotic) xs) +
        length (filter (\<lambda>r. category r = Anti_apoptotic) xs) +
        length (filter (\<lambda>r. category r = Ambiguous) xs) +
        length (filter (\<lambda>r. category r = Unspecified) xs) = length xs"
    using assms by (induction xs) (auto simp: CATEGORY_ORDER_def)
  then show ?thesis
    by (simp add: add_category_stats_def CATEGORY_ORDER_def)
qed

lemma to_categorical_known: "c \<in> set CATEGORY_ORDER \<Longrightarrow> to_categorical c = Some c"
  by (simp add: to_categorical_def)

lemma set_sort_by_category: "set (sort_by_category xs) = set_categorical ` set xs"
  by (simp add: sort_by_category_def)


subsection \<open>The profiles after aggregation\<close>

lemma view_at_file_view:
  "view_at (file_view c k m) g = (if g = k then view_union c (view_at m k) else view_at m g)"
  by (simp add: view_at_def file_view_def)

lemma defined_file_view: "file_view c k m g = None \<longleftrightarrow> g \<noteq> k \<and> m g = None"
  by (simp add: file_view_def)

lemma view_at_tracker_view:
  "map_of ge g = Some ev \<Longrightarrow> view_at (tracker_view ge) g = evidence_sets ev"
  by (simp add: view_at_def tracker_view_def)

lemma tracker_view_defined: "tracker_view ge g = None \<longleftrightarrow> map_of ge g = None"
  by (simp add: tracker_view_def)

lemma fold_filing_proj:
  fixes proj :: "evidence_view \<Rightarrow> string set"
  assumes hom: "\<And>a b. proj (view_union a b) = proj a \<union> proj b"
  shows "proj (view_at (fold (\<lambda>x v. case K x of None \<Rightarrow> v | Some k \<Rightarrow> file_view (C x) k v) xs m) g) =
           (\<Union>x \<in> {x \<in> set xs. K x = Some g}. proj (C x)) \<union> proj (view_at m g)"
proof (induction xs arbitrary: m)
  case Nil
  then show ?case by simp
next
  case (Cons x xs)
  show ?case
  proof (cases "K x")
    case None
    then show ?thesis by (auto simp: Cons.IH)
  next
    case (Some k)
    then show ?thesis by (auto simp: Cons.IH view_at_file_view hom)
  qed
qed

lemma fold_human_proj:
  fixes proj :: "evidence_view \<Rightarrow> string set"
  assumes hom: "\<And>a b. proj (view_union a b) = proj a \<union> proj b"
  shows "proj (view_at (fold (\<lambda>x. file_view (C x) x) xs m) g) =
           (if g \<in> set xs then proj (C g) else {}) \<union> proj (view_at m g)"
  using fold_filing_proj [where proj = proj and K = Some and C = C and xs = xs and m = m and g = g, OF hom]
  by auto

lemma fold_human_defined:
  "fold (\<lambda>x. file_view (C x) x) xs m g = None \<longleftrightarrow> g \<notin> set xs \<and> m g = None"
  by (induction xs arbitrary: m) (auto simp: defined_file_view)

lemma fold_filing_defined:
  "fold (\<lambda>x v. case K x of None \<Rightarrow> v | Some k \<Rightarrow> file_view (C x) k v) xs m g = None \<longleftrightarrow>
     (\<forall>x \<in> set xs. K x \<noteq> Some g) \<and> m g = None"
proof (induction xs arbitrary: m)
  case Nil
  then show ?case by simp
next
  case (Cons x xs)
  show ?case
    by (cases "K x") (auto simp: Cons.IH defined_file_view)
qed

lemma view_human_loop:
  assumes ad: "\<And>e. evidence_sets (ad s e) = view_union c (evidence_sets e)"
  shows "tracker_view (fold (human_step ad s h) xs g) =
         fold (\<lambda>x. file_view
                   (view_union c ({}, {}, {}, case h x of None \<Rightarrow> {} | Some ms \<Rightarrow> set ms)) x)
           xs (tracker_view g)"
  by (rule tracker_view_fold)
    (rule tracker_view_human_step [where ad = ad and s = s and c = c, OF ad])

lemma view_mouse_loop:
  assumes ad: "\<And>e. evidence_sets (ad s e) = view_union c (evidence_sets e)"
  shows "tracker_view (fold (mouse_step ad s m) xs g) =
         fold (\<lambda>x v. case m x of None \<Rightarrow> v
               | Some k \<Rightarrow> file_view (view_union ({}, {}, {}, {x}) c) k v)
           xs (tracker_view g)"
  by (rule tracker_view_fold)
    (rule tracker_view_mouse_step [where ad = ad and s = s and c = c, OF ad])

lemmas view_loops =
  view_human_loop [OF evidence_sets_add_pro] view_human_loop [OF evidence_sets_add_anti]
  view_human_loop [OF evidence_sets_add_general]
  view_mouse_loop [OF evidence_sets_add_pro] view_mouse_loop [OF evidence_sets_add_anti]

lemma tracker_view_Nil: "tracker_view [] = Map.empty"
  by (simp add: tracker_view_def)

lemma view_at_empty: "view_at Map.empty g = ({}, {}, {}, {})"
  by (simp add: view_at_def)

lemma proj_view_union:
  "fst (view_union a b) = fst a \<union> fst b"
  "fst (snd (view_union a b)) = fst (snd a) \<union> fst (snd b)"
  "fst (snd (snd (view_union a b))) = fst (snd (snd a)) \<union> fst (snd (snd b))"
  "snd (snd (snd (view_union a b))) = snd (snd (snd a)) \<union> snd (snd (snd b))"
  by (auto simp: view_union_def split: prod.splits)

lemma pro_view_aggregate:
  "fst (view_at (tracker_view (aggregate orth srcs)) g) =
     {s. s = ''GO_Pro_Human'' \<and> g \<in> set (GO_Pro_Human srcs)} \<union>
     {s. s = ''GO_Pro_Mouse'' \<and> (\<exists>m \<in> set (GO_Pro_Mouse srcs). m2h orth m = Some g)}"
  unfolding aggregate_def Let_def
  apply (simp add: view_loops tracker_view_Nil)
  apply (simp only: fold_filing_proj [where proj = fst, OF proj_view_union(1)]
      fold_human_proj [where proj = fst, OF proj_view_union(1)] view_at_empty)
  apply (auto simp: proj_view_union)
  done

lemma anti_view_aggregate:
  "fst (snd (view_at (tracker_view (aggregate orth srcs)) g)) =
     {s. s = ''GO_Anti_Human'' \<and> g \<in> set (GO_Anti_Human srcs)} \<union>
     {s. s = ''GO_Anti_Mouse'' \<and> (\<exists>m \<in> set (GO_Anti_Mouse srcs). m2h orth m = Some g)}"
  unfolding aggregate_def Let_def
  apply (simp add: view_loops tracker_view_Nil)
  apply (simp only: fold_filing_proj [where proj = "\<lambda>v. fst (snd v)", OF proj_view_union(2)]
      fold_human_proj [where proj = "\<lambda>v. fst (snd v)", OF proj_view_union(2)] view_at_empty)
  apply (auto simp: proj_view_union)
  done

lemma general_view_aggregate:
  "fst (snd (snd (view_at (tracker_view (aggregate orth srcs)) g))) =
     {s. s = ''KEGG'' \<and> g \<in> set (KEGG srcs)} \<union>
     {s. s = ''Reactome'' \<and> g \<in> set (Reactome srcs)} \<union>
     {s. s = ''Hallmark'' \<and> g \<in> set (Hallmark srcs)}"
  unfolding aggregate_def Let_def
  apply (simp add: view_loops tracker_view_Nil)
  apply (simp only: fold_filing_proj [where proj = "\<lambda>v. fst (snd (snd v))", OF proj_view_union(3)]
      fold_human_proj [where proj = "\<lambda>v. fst (snd (snd v))", OF proj_view_union(3)] view_at_empty)
  apply (auto simp: proj_view_union)
  done

lemma mouse_view_aggregate:
  "snd (snd (snd (view_at (tracker_view (aggregate orth srcs)) g))) =
     {m. \<exists>ms. h2m orth g = Some ms \<and> m \<in> set ms \<and>
          g \<in> set (GO_Pro_Human srcs) \<union> set (GO_Anti_Human srcs) \<union> set (KEGG srcs) \<union>
              set (Reactome srcs) \<union> set (Hallmark srcs)} \<union>
     {m. m \<in> set (GO_Pro_Mouse srcs) \<union> set (GO_Anti_Mouse srcs) \<and> m2h orth m = Some g}"
  unfolding aggregate_def Let_def
  apply (simp add: view_loops tracker_view_Nil)
  apply (simp only: fold_filing_proj [where proj = "\<lambda>v. snd (snd (snd v))", OF proj_view_union(4)]
      fold_human_proj [where proj = "\<lambda>v. snd (snd (snd v))", OF proj_view_union(4)] view_at_empty)
  apply (auto simp: proj_view_union split: option.splits)
  done

lemma defined_aggregate:
  "map_of (aggregate orth srcs) g = None \<longleftrightarrow>
     g \<notin> set (GO_Pro_Human srcs) \<union> set (GO_Anti_Human srcs) \<union> set (KEGG srcs) \<union>
         set (Reactome srcs) \<union> set (Hallmark srcs) \<and>
     (\<forall>m \<in> set (GO_Pro_Mouse srcs) \<union> set (GO_Anti_Mouse srcs). m2h orth m \<noteq> Some g)"
proof -
  have "tracker_view (aggregate orth srcs) g = None \<longleftrightarrow>
     g \<notin> set (GO_Pro_Human srcs) \<union> set (GO_Anti_Human srcs) \<union> set (KEGG srcs) \<union>
         set (Reactome srcs) \<union> set (Hallmark srcs) \<and>
     (\<forall>m \<in> set (GO_Pro_Mouse srcs) \<union> set (GO_Anti_Mouse srcs). m2h orth m \<noteq> Some g)"
    unfolding aggregate_def Let_def
    apply (simp add: view_loops tracker_view_Nil)
    apply (simp only: fold_filing_defined fold_human_defined)
    apply auto
    done
  then show ?thesis by (simp only: tracker_view_defined)
qed

lemma profile_sets_aggregate:
  assumes "map_of (aggregate orth srcs) g = Some ev"
  shows "set (pro_evidence ev) =
           {s. s = ''GO_Pro_Human'' \<and> g \<in> set (GO_Pro_Human srcs)} \<union>
           {s. s = ''GO_Pro_Mouse'' \<and> (\<exists>m \<in> set (GO_Pro_Mouse srcs). m2h orth m = Some g)}"
    and "set (anti_evidence ev) =
           {s. s = ''GO_Anti_Human'' \<and> g \<in> set (GO_Anti_Human srcs)} \<union>
           {s. s = ''GO_Anti_Mouse'' \<and> (\<exists>m \<in> set (GO_Anti_Mouse srcs). m2h orth m = Some g)}"
    and "set (general_evidence ev) =
           {s. s = ''KEGG'' \<and> g \<in> set (KEGG srcs)} \<union>
           {s. s = ''Reactome'' \<and> g \<in> set (Reactome srcs)} \<union>
           {s. s = ''Hallmark'' \<and> g \<in> set (Hallmark srcs)}"
    and "set (mouse_symbols ev) =
           {m. \<exists>ms. h2m orth g = Some ms \<and> m \<in> set ms \<and>
                g \<in> set (GO_Pro_Human srcs) \<union> set (GO_Anti_Human srcs) \<union> set (KEGG srcs) \<union>
                    set (Reactome srcs) \<union> set (Hallmark srcs)} \<union>
           {m. m \<in> set (GO_Pro_Mouse srcs) \<union> set (GO_Anti_Mouse srcs) \<and> m2h orth m = Some g}"
proof -
  have v: "view_at (tracker_view (aggregate orth srcs)) g = evidence_sets ev"
    by (rule view_at_tracker_view) (rule assms)
  show "set (pro_evidence ev) =
           {s. s = ''GO_Pro_Human'' \<and> g \<in> set (GO_Pro_Human srcs)} \<union>
           {s. s = ''GO_Pro_Mouse'' \<and> (\<exists>m \<in> set (GO_Pro_Mouse srcs). m2h orth m = Some g)}"
    using pro_view_aggregate [of orth srcs g] by (simp add: v evidence_sets_def)
  show "set (anti_evidence ev) =
           {s. s = ''GO_Anti_Human'' \<and> g \<in> set (GO_Anti_Human srcs)} \<union>
           {s. s = ''GO_Anti_Mouse'' \<and> (\<exists>m \<in> set (GO_Anti_Mouse srcs). m2h orth m = Some g)}"
    using anti_view_aggregate [of orth srcs g] by (simp add: v evidence_sets_def)
  show "set (general_evidence ev) =
           {s. s = ''KEGG'' \<and> g \<in> set (KEGG srcs)} \<union>
           {s. s = ''Reactome'' \<and> g \<in> set (Reactome srcs)} \<union>
           {s. s = ''Hallmark'' \<and> g \<in> set (Hallmark srcs)}"
    using general_view_aggregate [of orth srcs g] by (simp add: v evidence_sets_def)
  show "set (mouse_symbols ev) =
           {m. \<exists>ms. h2m orth g = Some ms \<and> m \<in> set ms \<and>
                g \<in> set (GO_Pro_Human srcs) \<union> set (GO_Anti_Human srcs) \<union> set (KEGG srcs) \<union>
                    set (Reactome srcs) \<union> set (Hallmark srcs)} \<union>
           {m. m \<in> set (GO_Pro_Mouse srcs) \<union> set (GO_Anti_Mouse srcs) \<and> m2h orth m = Some g}"
    using mouse_view_aggregate [of orth srcs g] by (simp add: v evidence_sets_def)
qed

lemma fold_mouse_step_mapped:
  "fold (mouse_step ad s m) xs g = fold (mouse_step ad s m) (filter (\<lambda>x. m x \<noteq> None) xs) g"
  by (induction xs arbitrary: g) (auto simp: mouse_step_def)

lemma aggregate_mapped_only:
  "aggregate orth srcs =
     aggregate orth
       (srcs\<lparr>GO_Pro_Mouse := filter (\<lambda>m. m2h orth m \<noteq> None) (GO_Pro_Mouse srcs),
             GO_Anti_Mouse := filter (\<lambda>m. m2h orth m \<noteq> None) (GO_Anti_Mouse srcs)\<rparr>)"
  unfolding aggregate_def Let_def
  by (simp add: fold_mouse_step_mapped [symmetric] del: not_None_eq)

text \<open>The effect of one iteration of the loops over the mouse gene sets.\<close>

lemma mouse_step_effect:
  "(m2h' mouse_gene = None \<longrightarrow>
      mouse_step add_pro ''GO_Pro_Mouse'' m2h' mouse_gene ge = ge \<and>
      mouse_step add_anti ''GO_Anti_Mouse'' m2h' mouse_gene ge = ge)
   \<and> (\<forall>human_gene old.
        m2h' mouse_gene = Some human_gene \<and>
        old = (case map_of ge human_gene of None \<Rightarrow> default_evidence | Some v \<Rightarrow> v) \<longrightarrow>
        map_of (mouse_step add_pro ''GO_Pro_Mouse'' m2h' mouse_gene ge) =
          (map_of ge)(human_gene \<mapsto>
             old\<lparr>pro_evidence := set_add ''GO_Pro_Mouse'' (pro_evidence old),
                 mouse_symbols := set_add mouse_gene (mouse_symbols old)\<rparr>) \<and>
        map_of (mouse_step add_anti ''GO_Anti_Mouse'' m2h' mouse_gene ge) =
          (map_of ge)(human_gene \<mapsto>
             old\<lparr>anti_evidence := set_add ''GO_Anti_Mouse'' (anti_evidence old),
                 mouse_symbols := set_add mouse_gene (mouse_symbols old)\<rparr>))"
  by (auto simp: mouse_step_def map_of_dd_update add_pro_def add_anti_def add_mouse_def)

section \<open>Classification\<close>

text \<open>
  C1.  For every evidence profile with at least one of the three evidence sets
  non-empty, the category is assigned by first-match precedence: both \<open>pro\<close> and
  \<open>anti\<close> non-empty gives Ambiguous; otherwise \<open>pro\<close> non-empty gives Pro-apoptotic;
  otherwise \<open>anti\<close> non-empty gives Anti-apoptotic; otherwise (only \<open>general\<close>
  non-empty) Unspecified.  In particular the category is one of these four.
\<close>

theorem categorize_precedence:
  assumes "pro_evidence ev \<noteq> [] \<or> anti_evidence ev \<noteq> [] \<or> general_evidence ev \<noteq> []"
  shows "categorize ev =
           (if pro_evidence ev \<noteq> [] \<and> anti_evidence ev \<noteq> [] then Ambiguous
            else if pro_evidence ev \<noteq> [] then Pro_apoptotic
            else if anti_evidence ev \<noteq> [] then Anti_apoptotic
            else Unspecified)
         \<and> categorize ev \<in> {Ambiguous, Pro_apoptotic, Anti_apoptotic, Unspecified}"
  using assms by (auto simp: categorize_def)

theorem categorize_precedence_witness:
  "categorize \<lparr>pro_evidence = [''GO_Pro_Human''], anti_evidence = [],
       general_evidence = [''KEGG''], mouse_symbols = [''Trp53'']\<rparr> = Pro_apoptotic
   \<and> categorize \<lparr>pro_evidence = [], anti_evidence = [],
       general_evidence = [''Hallmark''], mouse_symbols = []\<rparr> = Unspecified"
  using categorize_precedence
    [of "\<lparr>pro_evidence = [''GO_Pro_Human''], anti_evidence = [],
          general_evidence = [''KEGG''], mouse_symbols = [''Trp53'']\<rparr>"]
    categorize_precedence
    [of "\<lparr>pro_evidence = [], anti_evidence = [],
          general_evidence = [''Hallmark''], mouse_symbols = []\<rparr>"]
  by simp

section \<open>Evidence score\<close>

text \<open>
  C2.  For every row of the consolidated table, \<open>evidence_score\<close> is the number of
  distinct source labels in the union of the pro, anti and general evidence sets of
  the gene's profile; a label that occurs in more than one of the three sets is
  counted once.
\<close>

theorem evidence_score_counts_distinct_sources:
  assumes "consolidate_genes orth srcs = Inr tbl" and "e \<in> set tbl"
  shows "\<exists>ev. map_of (aggregate orth srcs) (human_symbol e) = Some ev \<and>
           evidence_score e =
             int (card (set (pro_evidence ev) \<union> set (anti_evidence ev) \<union> set (general_evidence ev)))"
proof -
  from assms obtain g ev where item: "(g, ev) \<in> set (aggregate orth srcs)"
    and e: "e = consolidate_entry (g, ev)"
    by (auto simp: set_consolidate_genes)
  have "map_of (aggregate orth srcs) (human_symbol e) = Some ev"
    using item e by (simp add: human_symbol_consolidate_entry map_of_aggregate)
  moreover have "evidence_score e =
      int (card (set (pro_evidence ev) \<union> set (anti_evidence ev) \<union> set (general_evidence ev)))"
    using e by (simp add: consolidate_entry_def Let_def length_all_sources)
  ultimately show ?thesis by blast
qed

theorem evidence_score_counts_distinct_sources_witness:
  "consolidate_genes example_orthology example_sources = Inr example_table
   \<and> (\<exists>ev. map_of (aggregate example_orthology example_sources) ''TP53'' = Some ev \<and>
         (2::int) =
           int (card (set (pro_evidence ev) \<union> set (anti_evidence ev) \<union> set (general_evidence ev))))"
proof -
  have row: "\<lparr>human_symbol = ''TP53'', mouse_symbol = ''Trp53'', category = Pro_apoptotic,
       sources = ''GO_Pro_Human,KEGG'', evidence_score = 2\<rparr> \<in> set example_table"
    by simp
  show ?thesis
    using example_run evidence_score_counts_distinct_sources [OF example_run row]
    by simp
qed

section \<open>Order of the consolidated table\<close>

text \<open>
  C3 (as stated).  The claim orders ties of \<open>evidence_score\<close> by the symbol
  normalised to upper case.  The table is sorted on the symbol as it is: with
  \<open>C1orf112\<close> and \<open>C1QA\<close> from one source, \<open>C1QA\<close> comes first, although in upper
  case \<open>C1ORF112\<close> precedes \<open>C1QA\<close>.
\<close>

theorem table_order_upper_case_counterexample:
  "consolidate_genes (load_orthology_mapping [])
     \<lparr>GO_Pro_Human = [], GO_Anti_Human = [], GO_Pro_Mouse = [], GO_Anti_Mouse = [],
      KEGG = [''C1orf112'', ''C1QA''], Reactome = [], Hallmark = []\<rparr>
   = Inr [\<lparr>human_symbol = ''C1QA'', mouse_symbol = [], category = Unspecified,
            sources = ''KEGG'', evidence_score = 1\<rparr>,
          \<lparr>human_symbol = ''C1orf112'', mouse_symbol = [], category = Unspecified,
            sources = ''KEGG'', evidence_score = 1\<rparr>]
   \<and> \<not> upper ''C1QA'' \<le> upper ''C1orf112''"
  by code_simp

text \<open>
  C3 (amended).  The consolidated table is ordered by descending \<open>evidence_score\<close>;
  rows with equal score are in strictly ascending order of \<open>human_symbol\<close>, compared
  character by character as the symbol is written (case-sensitively).
\<close>

theorem table_order:
  assumes "consolidate_genes orth srcs = Inr tbl"
  shows "sorted_wrt (\<lambda>a b. evidence_score a > evidence_score b \<or>
            evidence_score a = evidence_score b \<and> human_symbol a < human_symbol b) tbl"
proof -
  have "sorted (map sort_columns tbl)"
    unfolding consolidate_genes_rows [OF assms] by (rule sorted_sort_key)
  then have s: "sorted_wrt (\<lambda>a b. sort_columns a \<le> sort_columns b) tbl"
    by (simp add: sorted_map)
  have d: "sorted_wrt (\<lambda>a b. human_symbol a \<noteq> human_symbol b) tbl"
    using distinct_human_symbols [OF assms] by (simp add: distinct_map sorted_wrt_map [symmetric] distinct_conv_nth sorted_wrt_iff_nth_less)
  have "sorted_wrt (\<lambda>a b. sort_columns a \<le> sort_columns b \<and> human_symbol a \<noteq> human_symbol b) tbl"
    using s d by (simp add: sorted_wrt_iff_nth_less)
  then show ?thesis
    by (rule sorted_wrt_mono_rel [rotated]) (auto simp: sort_columns_def)
qed

theorem table_order_witness:
  "consolidate_genes example_orthology example_sources = Inr example_table
   \<and> sorted_wrt (\<lambda>a b. evidence_score a > evidence_score b \<or>
            evidence_score a = evidence_score b \<and> human_symbol a < human_symbol b)
        example_table"
  using example_run table_order [OF example_run] by (intro conjI)

section \<open>The reverse ortholog index\<close>

text \<open>
  C4.  The reverse index \<open>m2h\<close> built by \<open>load_orthology_mapping\<close> has at most one
  human symbol per mouse symbol: the one of the last row of the pair table, in
  processing order, whose mouse symbol it is (the first such row of the reversed
  table), and none when there is no such row.
\<close>

theorem reverse_index_last_write_wins:
  "m2h (load_orthology_mapping df) mouse =
     map_option fst (find (\<lambda>row. snd row = mouse) (rev df))"
  by (simp add: load_orthology_mapping_def m2h_foldl_load_row split: option.split)

section \<open>Mouse records\<close>

text \<open>
  C5.  The evidence tracker returned by the five loops files every mouse record as
  follows.  A record of \<open>GO_Pro_Mouse\<close> whose symbol the reverse index resolves is in
  the profile of the resolved human symbol: the label \<open>GO_Pro_Mouse\<close> is in its pro
  evidence and the mouse symbol is in its mouse symbols; likewise a record of
  \<open>GO_Anti_Mouse\<close> with the anti evidence.  Polarity is preserved: in every profile
  the label \<open>GO_Pro_Mouse\<close> is in the pro evidence exactly when some record of
  \<open>GO_Pro_Mouse\<close> resolves to the profile's symbol, and never in the anti or general
  evidence; likewise \<open>GO_Anti_Mouse\<close>; and the mouse symbols of a profile are the
  orthologs of its symbol (when a human source has it) and the mouse records that
  resolve to it.  Records that the reverse index does not resolve contribute
  nothing: the tracker is the one obtained without them.  The lookup has no error
  result.
\<close>

theorem mouse_records_projected:
  "(\<forall>mouse_gene \<in> set (GO_Pro_Mouse srcs). \<forall>human_gene.
      m2h orth mouse_gene = Some human_gene \<longrightarrow>
      (\<exists>ev. map_of (aggregate orth srcs) human_gene = Some ev \<and>
            ''GO_Pro_Mouse'' \<in> set (pro_evidence ev) \<and>
            mouse_gene \<in> set (mouse_symbols ev)))
   \<and> (\<forall>mouse_gene \<in> set (GO_Anti_Mouse srcs). \<forall>human_gene.
      m2h orth mouse_gene = Some human_gene \<longrightarrow>
      (\<exists>ev. map_of (aggregate orth srcs) human_gene = Some ev \<and>
            ''GO_Anti_Mouse'' \<in> set (anti_evidence ev) \<and>
            mouse_gene \<in> set (mouse_symbols ev)))
   \<and> (\<forall>g ev. map_of (aggregate orth srcs) g = Some ev \<longrightarrow>
        (''GO_Pro_Mouse'' \<in> set (pro_evidence ev) \<longleftrightarrow>
           (\<exists>m \<in> set (GO_Pro_Mouse srcs). m2h orth m = Some g)) \<and>
        (''GO_Anti_Mouse'' \<in> set (anti_evidence ev) \<longleftrightarrow>
           (\<exists>m \<in> set (GO_Anti_Mouse srcs). m2h orth m = Some g)) \<and>
        ''GO_Pro_Mouse'' \<notin> set (anti_evidence ev) \<union> set (general_evidence ev) \<and>
        ''GO_Anti_Mouse'' \<notin> set (pro_evidence ev) \<union> set (general_evidence ev) \<and>
        set (mouse_symbols ev) =
          {m. \<exists>ms. h2m orth g = Some ms \<and> m \<in> set ms \<and>
               g \<in> set (GO_Pro_Human srcs) \<union> set (GO_Anti_Human srcs) \<union> set (KEGG srcs) \<union>
                   set (Reactome srcs) \<union> set (Hallmark srcs)} \<union>
          {m. m \<in> set (GO_Pro_Mouse srcs) \<union> set (GO_Anti_Mouse srcs) \<and> m2h orth m = Some g})
   \<and> aggregate orth srcs =
       aggregate orth
         (srcs\<lparr>GO_Pro_Mouse := filter (\<lambda>m. m2h orth m \<noteq> None) (GO_Pro_Mouse srcs),
               GO_Anti_Mouse := filter (\<lambda>m. m2h orth m \<noteq> None) (GO_Anti_Mouse srcs)\<rparr>)"
proof (intro conjI)
  show "\<forall>mouse_gene \<in> set (GO_Pro_Mouse srcs). \<forall>human_gene.
      m2h orth mouse_gene = Some human_gene \<longrightarrow>
      (\<exists>ev. map_of (aggregate orth srcs) human_gene = Some ev \<and>
            ''GO_Pro_Mouse'' \<in> set (pro_evidence ev) \<and>
            mouse_gene \<in> set (mouse_symbols ev))"
  proof (intro ballI allI impI)
    fix mouse_gene human_gene
    assume m: "mouse_gene \<in> set (GO_Pro_Mouse srcs)" and h: "m2h orth mouse_gene = Some human_gene"
    from m h have "map_of (aggregate orth srcs) human_gene \<noteq> None"
      unfolding defined_aggregate by blast
    then obtain ev where ev: "map_of (aggregate orth srcs) human_gene = Some ev"
      by blast
    from m h show "\<exists>ev. map_of (aggregate orth srcs) human_gene = Some ev \<and>
            ''GO_Pro_Mouse'' \<in> set (pro_evidence ev) \<and> mouse_gene \<in> set (mouse_symbols ev)"
      using ev profile_sets_aggregate(1,4) [OF ev] by blast
  qed
next
  show "\<forall>mouse_gene \<in> set (GO_Anti_Mouse srcs). \<forall>human_gene.
      m2h orth mouse_gene = Some human_gene \<longrightarrow>
      (\<exists>ev. map_of (aggregate orth srcs) human_gene = Some ev \<and>
            ''GO_Anti_Mouse'' \<in> set (anti_evidence ev) \<and>
            mouse_gene \<in> set (mouse_symbols ev))"
  proof (intro ballI allI impI)
    fix mouse_gene human_gene
    assume m: "mouse_gene \<in> set (GO_Anti_Mouse srcs)" and h: "m2h orth mouse_gene = Some human_gene"
    from m h have "map_of (aggregate orth srcs) human_gene \<noteq> None"
      unfolding defined_aggregate by blast
    then obtain ev where ev: "map_of (aggregate orth srcs) human_gene = Some ev"
      by blast
    from m h show "\<exists>ev. map_of (aggregate orth srcs) human_gene = Some ev \<and>
            ''GO_Anti_Mouse'' \<in> set (anti_evidence ev) \<and> mouse_gene \<in> set (mouse_symbols ev)"
      using ev profile_sets_aggregate(2,4) [OF ev] by blast
  qed
next
  show "\<forall>g ev. map_of (aggregate orth srcs) g = Some ev \<longrightarrow>
        (''GO_Pro_Mouse'' \<in> set (pro_evidence ev) \<longleftrightarrow>
           (\<exists>m \<in> set (GO_Pro_Mouse srcs). m2h orth m = Some g)) \<and>
        (''GO_Anti_Mouse'' \<in> set (anti_evidence ev) \<longleftrightarrow>
           (\<exists>m \<in> set (GO_Anti_Mouse srcs). m2h orth m = Some g)) \<and>
        ''GO_Pro_Mouse'' \<notin> set (anti_evidence ev) \<union> set (general_evidence ev) \<and>
        ''GO_Anti_Mouse'' \<notin> set (pro_evidence ev) \<union> set (general_evidence ev) \<and>
        set (mouse_symbols ev) =
          {m. \<exists>ms. h2m orth g = Some ms \<and> m \<in> set ms \<and>
               g \<in> set (GO_Pro_Human srcs) \<union> set (GO_Anti_Human srcs) \<union> set (KEGG srcs) \<union>
                   set (Reactome srcs) \<union> set (Hallmark srcs)} \<union>
          {m. m \<in> set (GO_Pro_Mouse srcs) \<union> set (GO_Anti_Mouse srcs) \<and> m2h orth m = Some g}"
  proof (intro allI impI)
    fix g ev
    assume ev: "map_of (aggregate orth srcs) g = Some ev"
    show "(''GO_Pro_Mouse'' \<in> set (pro_evidence ev) \<longleftrightarrow>
           (\<exists>m \<in> set (GO_Pro_Mouse srcs). m2h orth m = Some g)) \<and>
        (''GO_Anti_Mouse'' \<in> set (anti_evidence ev) \<longleftrightarrow>
           (\<exists>m \<in> set (GO_Anti_Mouse srcs). m2h orth m = Some g)) \<and>
        ''GO_Pro_Mouse'' \<notin> set (anti_evidence ev) \<union> set (general_evidence ev) \<and>
        ''GO_Anti_Mouse'' \<notin> set (pro_evidence ev) \<union> set (general_evidence ev) \<and>
        set (mouse_symbols ev) =
          {m. \<exists>ms. h2m orth g = Some ms \<and> m \<in> set ms \<and>
               g \<in> set (GO_Pro_Human srcs) \<union> set (GO_Anti_Human srcs) \<union> set (KEGG srcs) \<union>
                   set (Reactome srcs) \<union> set (Hallmark srcs)} \<union>
          {m. m \<in> set (GO_Pro_Mouse srcs) \<union> set (GO_Anti_Mouse srcs) \<and> m2h orth m = Some g}"
      unfolding profile_sets_aggregate [OF ev] by auto
  qed
next
  show "aggregate orth srcs =
       aggregate orth
         (srcs\<lparr>GO_Pro_Mouse := filter (\<lambda>m. m2h orth m \<noteq> None) (GO_Pro_Mouse srcs),
               GO_Anti_Mouse := filter (\<lambda>m. m2h orth m \<noteq> None) (GO_Anti_Mouse srcs)\<rparr>)"
    by (rule aggregate_mapped_only)
qed

theorem mouse_records_projected_witness:
  "(\<exists>ev. map_of (aggregate example_orthology example_mouse_sources) ''TP53'' = Some ev \<and>
         ''GO_Pro_Mouse'' \<in> set (pro_evidence ev) \<and> ''Trp53'' \<in> set (mouse_symbols ev))
   \<and> (\<exists>ev. map_of (aggregate example_orthology example_mouse_sources) ''BAX'' = Some ev \<and>
         ''GO_Anti_Mouse'' \<in> set (anti_evidence ev) \<and> ''Bax'' \<in> set (mouse_symbols ev))
   \<and> aggregate example_orthology example_mouse_sources =
       [(''TP53'', \<lparr>pro_evidence = [''GO_Pro_Mouse''], anti_evidence = [],
                   general_evidence = [''KEGG''], mouse_symbols = [''Trp53'']\<rparr>),
        (''BAX'', \<lparr>pro_evidence = [], anti_evidence = [''GO_Anti_Mouse''],
                  general_evidence = [], mouse_symbols = [''Bax'']\<rparr>)]
   \<and> m2h example_orthology ''Xyz'' = None"
proof -
  have p: "''Trp53'' \<in> set (GO_Pro_Mouse example_mouse_sources)"
    and a: "''Bax'' \<in> set (GO_Anti_Mouse example_mouse_sources)"
    by simp_all
  have mp: "m2h example_orthology ''Trp53'' = Some ''TP53''"
    and ma: "m2h example_orthology ''Bax'' = Some ''BAX''"
    and mx: "m2h example_orthology ''Xyz'' = None"
    by code_simp+
  have run: "aggregate example_orthology example_mouse_sources =
       [(''TP53'', \<lparr>pro_evidence = [''GO_Pro_Mouse''], anti_evidence = [],
                   general_evidence = [''KEGG''], mouse_symbols = [''Trp53'']\<rparr>),
        (''BAX'', \<lparr>pro_evidence = [], anti_evidence = [''GO_Anti_Mouse''],
                  general_evidence = [], mouse_symbols = [''Bax'']\<rparr>)]"
    by code_simp
  note inst = mouse_records_projected [of example_mouse_sources example_orthology]
  have A: "\<exists>ev. map_of (aggregate example_orthology example_mouse_sources) ''TP53'' = Some ev \<and>
         ''GO_Pro_Mouse'' \<in> set (pro_evidence ev) \<and> ''Trp53'' \<in> set (mouse_symbols ev)"
    using inst p mp by blast
  have B: "\<exists>ev. map_of (aggregate example_orthology example_mouse_sources) ''BAX'' = Some ev \<and>
         ''GO_Anti_Mouse'' \<in> set (anti_evidence ev) \<and> ''Bax'' \<in> set (mouse_symbols ev)"
    using inst a ma by blast
  from A B run mx show ?thesis by (intro conjI)
qed

section \<open>No empty profile\<close>

text \<open>
  C8.  Every profile of the evidence tracker after aggregation has at least one of
  its three evidence sets non-empty, so the branch \<open>Unknown\<close> of the classification
  is not taken: every row of the consolidated table has one of the four categories
  Ambiguous, Pro-apoptotic, Anti-apoptotic, Unspecified.
\<close>

theorem aggregated_profiles_never_empty:
  "(\<forall>(g, ev) \<in> set (aggregate orth srcs).
      pro_evidence ev \<noteq> [] \<or> anti_evidence ev \<noteq> [] \<or> general_evidence ev \<noteq> [])
   \<and> (\<forall>tbl. consolidate_genes orth srcs = Inr tbl \<longrightarrow>
        (\<forall>e \<in> set tbl. category e \<in> {Ambiguous, Pro_apoptotic, Anti_apoptotic, Unspecified}))"
proof (rule conjI)
  show "\<forall>(g, ev) \<in> set (aggregate orth srcs).
      pro_evidence ev \<noteq> [] \<or> anti_evidence ev \<noteq> [] \<or> general_evidence ev \<noteq> []"
    by (rule has_evidence_aggregate)
next
  show "\<forall>tbl. consolidate_genes orth srcs = Inr tbl \<longrightarrow>
        (\<forall>e \<in> set tbl. category e \<in> {Ambiguous, Pro_apoptotic, Anti_apoptotic, Unspecified})"
  proof (intro allI impI ballI)
    fix tbl e
    assume "consolidate_genes orth srcs = Inr tbl" and "e \<in> set tbl"
    then obtain g ev where item: "(g, ev) \<in> set (aggregate orth srcs)"
      and e: "e = consolidate_entry (g, ev)"
      by (auto simp: set_consolidate_genes)
    from item has_evidence_aggregate [of orth srcs]
    have "pro_evidence ev \<noteq> [] \<or> anti_evidence ev \<noteq> [] \<or> general_evidence ev \<noteq> []"
      by auto
    then show "category e \<in> {Ambiguous, Pro_apoptotic, Anti_apoptotic, Unspecified}"
      unfolding e by (auto simp: consolidate_entry_def categorize_def Let_def)
  qed
qed

theorem aggregated_profiles_never_empty_witness:
  "consolidate_genes example_orthology example_sources = Inr example_table
   \<and> list_all (\<lambda>e. category e \<in> {Ambiguous, Pro_apoptotic, Anti_apoptotic, Unspecified})
       example_table"
proof -
  have "\<forall>e \<in> set example_table.
          category e \<in> {Ambiguous, Pro_apoptotic, Anti_apoptotic, Unspecified}"
    using aggregated_profiles_never_empty [of example_orthology example_sources] example_run
    by blast
  then show ?thesis
    using example_run unfolding list_all_iff by (intro conjI)
qed

section \<open>Duplicate ortholog pairs\<close>

text \<open>
  C6.  In the mapping returned by \<open>build_comprehensive_mapping\<close>, the records with
  a given pair \<open>(human_symbol, mouse_symbol)\<close> are: none when no mapping record has
  the pair, and otherwise exactly one, the first record with that pair in the order
  in which the records were built (human-to-mouse lookups first).  So a pair found
  once in each direction is kept once, with the direction tag of the record seen
  first.
\<close>

theorem duplicate_pairs_keep_first:
  "filter (\<lambda>r. pair_key r = k)
     (build_comprehensive_mapping human_to_mouse_ids mouse_id_to_symbol
        mouse_to_human_ids human_id_to_symbol) =
   (case find (\<lambda>r. pair_key r = k)
           (human_to_mouse_records human_to_mouse_ids mouse_id_to_symbol @
            mouse_to_human_records mouse_to_human_ids human_id_to_symbol) of
      None \<Rightarrow> []
    | Some r \<Rightarrow> [r])"
  by (simp only: build_comprehensive_mapping_def filter_finish_mapping)

theorem duplicate_pairs_keep_first_witness:
  "filter (\<lambda>r. pair_key r = (''TP53'', ''Trp53''))
     (build_comprehensive_mapping [(''TP53'', [22059])] [22059 \<mapsto> ''Trp53'']
        [(''Trp53'', [7157])] [7157 \<mapsto> ''TP53'']) =
   [\<lparr>pair_human_symbol = ''TP53'', pair_mouse_symbol = ''Trp53'', human_entrez = None,
     mouse_entrez = Some 22059, mapping_source = human_to_mouse\<rparr>]
   \<and> length (human_to_mouse_records [(''TP53'', [22059])] [22059 \<mapsto> ''Trp53''] @
        mouse_to_human_records [(''Trp53'', [7157])] [7157 \<mapsto> ''TP53'']) = 2"
proof -
  have rhs: "(case find (\<lambda>r. pair_key r = (''TP53'', ''Trp53''))
           (human_to_mouse_records [(''TP53'', [22059])] [22059 \<mapsto> ''Trp53''] @
            mouse_to_human_records [(''Trp53'', [7157])] [7157 \<mapsto> ''TP53'']) of
      None \<Rightarrow> []
    | Some r \<Rightarrow> [r]) =
   [\<lparr>pair_human_symbol = ''TP53'', pair_mouse_symbol = ''Trp53'', human_entrez = None,
     mouse_entrez = Some 22059, mapping_source = human_to_mouse\<rparr>]"
    by code_simp
  have len: "length (human_to_mouse_records [(''TP53'', [22059])] [22059 \<mapsto> ''Trp53''] @
        mouse_to_human_records [(''Trp53'', [7157])] [7157 \<mapsto> ''TP53'']) = 2"
    by code_simp
  show ?thesis
    using duplicate_pairs_keep_first [of "(''TP53'', ''Trp53'')" "[(''TP53'', [22059])]"
        "[22059 \<mapsto> ''Trp53'']" "[(''Trp53'', [7157])]" "[7157 \<mapsto> ''TP53'']"] rhs len
    by (simp only: simp_thms)
qed

section \<open>Determinism\<close>

text \<open>
  C7.  The model is a function of the raw gene sets and of the records obtained
  from the service, so equal inputs give equal tables.  Beyond that, the consolidated
  table does not depend on the order in which the gene sets are iterated (and hence
  in which evidence is filed), nor on the order or multiplicity in which the symbol
  pairs were found: two runs whose gene sets are equal as sets and whose mapping
  records carry the same set of symbol pairs give the same result, table or error.
\<close>

theorem consolidated_table_deterministic:
  assumes "set (map pair_key recs1) = set (map pair_key recs2)"
    and "set (GO_Pro_Human s1) = set (GO_Pro_Human s2)"
    and "set (GO_Anti_Human s1) = set (GO_Anti_Human s2)"
    and "set (GO_Pro_Mouse s1) = set (GO_Pro_Mouse s2)"
    and "set (GO_Anti_Mouse s1) = set (GO_Anti_Mouse s2)"
    and "set (KEGG s1) = set (KEGG s2)"
    and "set (Reactome s1) = set (Reactome s2)"
    and "set (Hallmark s1) = set (Hallmark s2)"
  shows "consolidate_genes (load_orthology_mapping (simple_mapping (finish_mapping recs1))) s1 =
         consolidate_genes (load_orthology_mapping (simple_mapping (finish_mapping recs2))) s2"
proof -
  have "simple_mapping (finish_mapping recs1) = simple_mapping (finish_mapping recs2)"
    by (rule simple_mapping_cong) (rule assms(1))
  moreover have "consolidate_genes orth s1 = consolidate_genes orth s2" for orth
    by (rule consolidate_genes_view) (rule aggregate_view [OF assms(2-)])
  ultimately show ?thesis by simp
qed

theorem consolidated_table_deterministic_witness:
  "consolidate_genes
     (load_orthology_mapping (simple_mapping (finish_mapping example_records))) example_sources =
   consolidate_genes
     (load_orthology_mapping (simple_mapping (finish_mapping example_records_reordered)))
     example_sources_reordered
   \<and> consolidate_genes
     (load_orthology_mapping (simple_mapping (finish_mapping example_records_reordered)))
     example_sources_reordered = Inr example_table"
proof -
  have pairs: "set (map pair_key example_records) = set (map pair_key example_records_reordered)"
    by (auto simp: pair_key_def)
  have kegg: "set (KEGG example_sources) = set (KEGG example_sources_reordered)"
    by auto
  have run: "consolidate_genes
     (load_orthology_mapping (simple_mapping (finish_mapping example_records_reordered)))
     example_sources_reordered = Inr example_table"
    by code_simp
  have "consolidate_genes
     (load_orthology_mapping (simple_mapping (finish_mapping example_records))) example_sources =
   consolidate_genes
     (load_orthology_mapping (simple_mapping (finish_mapping example_records_reordered)))
     example_sources_reordered"
    by (rule consolidated_table_deterministic [OF pairs _ _ _ _ kegg]) simp_all
  with run show ?thesis by (intro conjI)
qed

section \<open>Annotation\<close>

text \<open>
  C10.  Merging the Ensembl identifiers keeps every row and its order: dropping the
  two added fields from the annotated table gives back the table that was read, so
  \<open>human_symbol\<close>, \<open>mouse_symbol\<close>, \<open>category\<close>, \<open>sources\<close> and \<open>evidence_score\<close> of
  every row are unchanged.  The two added fields are the lookups of the row's
  symbols in the two dictionaries, absent when the dictionary has no entry.
\<close>

theorem annotation_extends_rows:
  "map gene_row.truncate (annotate human_ensembl_map mouse_ensembl_map df) = df
   \<and> map human_ensembl_id (annotate human_ensembl_map mouse_ensembl_map df) =
       map (\<lambda>r. human_ensembl_map (human_symbol r)) df
   \<and> map mouse_ensembl_id (annotate human_ensembl_map mouse_ensembl_map df) =
       map (\<lambda>r. if mouse_symbol r = [] then None else mouse_ensembl_map (mouse_symbol r)) df"
proof -
  have eta: "\<lparr>human_symbol = human_symbol x, mouse_symbol = mouse_symbol x,
         category = category x, sources = sources x,
         evidence_score = evidence_score x\<rparr> = x" for x :: "'a gene_row"
    by (cases x) simp
  show ?thesis
    by (simp add: annotate_def gene_row.truncate_def comp_def eta)
qed

section \<open>Source breakdown\<close>

text \<open>
  C9.  For a final table obtained by annotating the table of \<open>consolidate_genes\<close>:
  for every configured source, the sum of the per-category counts of its statistics
  is the number of rows of the full table whose \<open>sources\<close> field contains the
  source's pattern; and every row saved in a breakdown is a row of the full table
  with its category unchanged.
\<close>

theorem source_breakdown_consistent:
  assumes run: "consolidate_genes orth srcs = Inr tbl"
    and df: "df = annotate human_ensembl_map mouse_ensembl_map tbl"
  shows "map (\<lambda>(source_name, stats, saved). (source_name, sum_list (map snd (counts stats))))
           (breakdown df) =
         map (\<lambda>(source_name, pattern).
                (source_name, int (length (filter (\<lambda>r. str_contains (sources r) pattern) df))))
           SOURCE_PATTERNS
       \<and> (\<forall>(source_name, stats, saved) \<in> set (breakdown df). \<forall>r \<in> set saved.
            \<exists>e \<in> set df. r = set_categorical e \<and> category r = Some (category e))"
proof -
  have cat: "category r \<in> set CATEGORY_ORDER" if "r \<in> set df" for r
  proof -
    from that have "r \<in> set (annotate human_ensembl_map mouse_ensembl_map tbl)"
      by (simp only: df)
    then obtain e where "e \<in> set tbl" and "category r = category e"
      by (auto simp: annotate_def)
    then show ?thesis
      using table_categories [OF run, of e] by simp
  qed
  have total: "sum_list (map snd (counts (add_category_stats (filter_by_source df pattern)))) =
        int (length (filter (\<lambda>r. str_contains (sources r) pattern) df))" for pattern
  proof -
    have "\<forall>r \<in> set (filter_by_source df pattern). category r \<in> set CATEGORY_ORDER"
      using cat by (simp add: filter_by_source_def)
    then show ?thesis
      by (simp add: category_counts_total filter_by_source_def)
  qed
  have kept: "\<exists>e \<in> set df. r = set_categorical e \<and> category r = Some (category e)"
    if "r \<in> set (sort_by_category (filter_by_source df pattern))" for r pattern
  proof -
    from that obtain e where e: "e \<in> set df" and r: "r = set_categorical e"
      by (auto simp: set_sort_by_category filter_by_source_def)
    have "category r = Some (category e)"
      using cat [OF e] by (simp add: r set_categorical_def to_categorical_known)
    with e r show ?thesis by blast
  qed
  show ?thesis
    using kept by (auto simp: breakdown_def Let_def total)
qed

theorem source_breakdown_consistent_witness:
  "map (\<lambda>(source_name, stats, saved). (source_name, sum_list (map snd (counts stats))))
     (breakdown (annotate [''TP53'' \<mapsto> ''ENSG00000141510''] Map.empty example_table)) =
   [(''KEGG'', 3), (''Reactome'', 0), (''Hallmark'', 0), (''GO'', 3)]"
proof -
  have rhs: "map (\<lambda>(source_name, pattern).
                (source_name, int (length (filter (\<lambda>r. str_contains (sources r) pattern)
                   (annotate [''TP53'' \<mapsto> ''ENSG00000141510''] Map.empty example_table)))))
           SOURCE_PATTERNS =
         [(''KEGG'', 3), (''Reactome'', 0), (''Hallmark'', 0), (''GO'', 3)]"
    by code_simp
  have "map (\<lambda>(source_name, stats, saved). (source_name, sum_list (map snd (counts stats))))
     (breakdown (annotate [''TP53'' \<mapsto> ''ENSG00000141510''] Map.empty example_table)) =
        map (\<lambda>(source_name, pattern).
                (source_name, int (length (filter (\<lambda>r. str_contains (sources r) pattern)
                   (annotate [''TP53'' \<mapsto> ''ENSG00000141510''] Map.empty example_table)))))
           SOURCE_PATTERNS"
    using source_breakdown_consistent [OF example_run refl] by (rule conjunct1)
  with rhs show ?thesis by (simp only:)
qed

end
